theory Spec2Isabelle
  imports Complex_Main "HOL-Library.Word" "HOL-Library.Signed_Division" "HOL-Library.Multiset"
    "HOL-Library.Log_Nat"
    "HOL-Library.Sublist"
begin

unbundle bit_operations_syntax

text \<open>
  The read benchmarks of mongo-perf-lab: the explain analyzer of analyzer.go
  (\<^verbatim>\<open>PrintExplainResults\<close>, \<^verbatim>\<open>PrintMetrics\<close>), the statistics parsing and the memory measurement
  shared by the read programs, the parallel chunked read of read_v4.go and the
  single-threaded read loops.  The definitions come first, each next to the Go it renders;
  the facts about them follow.
\<close>

section \<open>Explain documents\<close>

text \<open>
  An explain result is a Go \<^verbatim>\<open>map[string]interface{}\<close>.  A value stored in it is an
  interface value, so it carries its dynamic type; the analyzer inspects that type with
  comma-ok type assertions.  The datatype below has one constructor for each dynamic type
  the analyzer asserts (\<^verbatim>\<open>int64\<close>, \<^verbatim>\<open>string\<close>, \<^verbatim>\<open>map[string]interface{}\<close>,
  \<^verbatim>\<open>[]interface{}\<close>) and for the other numeric types a BSON document can decode to
  (\<^verbatim>\<open>int32\<close>, \<^verbatim>\<open>float64\<close>, kept as its 64 raw bits); \<open>VOther\<close> stands for every
  remaining dynamic type.  Looking a missing key up in a Go map gives the nil interface,
  here \<open>None\<close>.
\<close>

type_synonym int64 = "64 word"
type_synonym int32 = "32 word"
type_synonym uint64 = "64 word"

datatype gvalue =
    VInt64 int64
  | VInt32 int32
  | VDouble "64 word"
  | VString string
  | VBool bool
  | VMap "string \<Rightarrow> gvalue option"
  | VArray "gvalue list"
  | VOther

type_synonym document = "string \<Rightarrow> gvalue option"

text \<open>The type assertions \<^verbatim>\<open>v.(int64)\<close>, \<^verbatim>\<open>v.(string)\<close> and
  \<^verbatim>\<open>v.(map[string]interface{})\<close> in their comma-ok form: \<open>None\<close> is \<^verbatim>\<open>ok == false\<close>.\<close>

fun as_int64 :: "gvalue option \<Rightarrow> int64 option" where
  "as_int64 (Some (VInt64 n)) = Some n"
| "as_int64 _ = None"

fun as_string :: "gvalue option \<Rightarrow> string option" where
  "as_string (Some (VString s)) = Some s"
| "as_string _ = None"

fun as_map :: "gvalue option \<Rightarrow> document option" where
  "as_map (Some (VMap m)) = Some m"
| "as_map _ = None"

section \<open>Go integer division\<close>

datatype error =
    DivideByZero
  | RequestError
  | DecodeError
  | CursorError

text \<open>Go's \<^verbatim>\<open>/\<close> on \<^verbatim>\<open>int64\<close> truncates towards zero, wraps on the one overflowing
  quotient and panics on a zero divisor.\<close>

definition go_div :: "int64 \<Rightarrow> int64 \<Rightarrow> error + int64" where
  "go_div a b = (if b = 0 then Inl DivideByZero else Inr (word_of_int (sint a sdiv sint b)))"

section \<open>The lines the analyzer writes\<close>

text \<open>
  Every message of \<^verbatim>\<open>PrintExplainResults\<close> and \<^verbatim>\<open>PrintMetrics\<close> is one constructor,
  carrying the arguments of its format string.  Each message is written through the
  logger when the logger is non-nil and through \<^verbatim>\<open>fmt\<close> otherwise; the two branches
  write the same messages in the same order, so the model has a single output.
  \<^item> \<open>SlowQueryWarning\<close>: "UYARI: Sorgu yavas (>100ms)";
  \<^item> \<open>OverExaminationWarning ratio\<close>: "UYARI: Dondurulenden %dx daha fazla dokuman inceleniyor";
  \<^item> \<open>CollScanWarning\<close>, \<open>CollScanDetail\<close>: the two lines "UYARI: Collection scan tespit edildi"
    and "Tum collection taraniyor";
  \<^item> \<open>IndexScanOk\<close>: "Index scan kullaniliyor"; \<open>IndexNameLine\<close>: "Kullanilan Index: %s";
  \<^item> \<open>FetchOk\<close>: "Index kullaniliyor ve dokumanlar getiriliyor";
  \<^item> \<open>LowEfficiencyWarning\<close>: "UYARI: Dusuk verimlilik - Index optimizasyonu gerekebilir";
  \<^item> \<open>WorkerRequestError\<close>, \<open>WorkerDecodeError\<close>, \<open>WorkerCursorError\<close>: the lines
    "Worker %d hatasi", "Worker %d decode hatasi" and "Worker %d cursor hatasi" of a worker
    of the parallel read; \<open>WorkerDone\<close>: "Worker %d tamamlandi: %d kayit okundu".
  A \<^verbatim>\<open>float64\<close> argument is carried as the rational number it denotes.
\<close>

datatype log_line =
    ExplainHeader string
  | StatsHeader
  | ExecTimeLine "gvalue option"
  | DocsExaminedLine "gvalue option"
  | KeysExaminedLine "gvalue option"
  | NReturnedLine "gvalue option"
  | SlowQueryWarning
  | OverExaminationWarning int64
  | PlanHeader
  | StageLine string
  | CollScanWarning
  | CollScanDetail
  | IndexScanOk
  | IndexNameLine string
  | FetchOk
  | JsonHeader
  | JsonDump document
  | BlankLine
  | Separator
  | MetricsHeader string
  | DurationLine int64
  | RecordsLine int64
  | MemoryLine rat
  | MongoStatsHeader
  | MongoTimeLine int64
  | MongoDocsLine int64
  | MongoKeysLine int64
  | MongoReturnedLine int64
  | EfficiencyLine rat
  | LowEfficiencyWarning
  | WorkerRequestError nat error
  | WorkerDecodeError nat
  | WorkerCursorError nat error
  | WorkerDone nat int64

section \<open>PrintExplainResults\<close>

text \<open>The block under \<^verbatim>\<open>explainResult["executionStats"]\<close>: four informational lines,
  then the slow-query check and the over-examination check.\<close>

definition stats_info_lines :: "document \<Rightarrow> log_line list" where
  "stats_info_lines executionStats =
     [StatsHeader,
      ExecTimeLine (executionStats ''executionTimeMillis''),
      DocsExaminedLine (executionStats ''totalDocsExamined''),
      KeysExaminedLine (executionStats ''totalKeysExamined''),
      NReturnedLine (executionStats ''nReturned'')]"

definition slow_query_lines :: "document \<Rightarrow> log_line list" where
  "slow_query_lines executionStats =
     (case as_int64 (executionStats ''executionTimeMillis'') of
        Some execTime \<Rightarrow> if 100 <s execTime then [SlowQueryWarning] else []
      | None \<Rightarrow> [])"

definition over_examination_lines :: "document \<Rightarrow> error + log_line list" where
  "over_examination_lines executionStats =
     (case as_int64 (executionStats ''totalDocsExamined'') of
        None \<Rightarrow> Inr []
      | Some totalExamined \<Rightarrow>
          (case as_int64 (executionStats ''nReturned'') of
             None \<Rightarrow> Inr []
           | Some nReturned \<Rightarrow>
               if 0 <s nReturned then
                 if nReturned * 2 <s totalExamined then
                   (case go_div totalExamined nReturned of
                      Inl e \<Rightarrow> Inl e
                    | Inr ratio \<Rightarrow> Inr [OverExaminationWarning ratio])
                 else Inr []
               else Inr []))"

definition execution_stats_lines :: "document \<Rightarrow> error + log_line list" where
  "execution_stats_lines explainResult =
     (case as_map (explainResult ''executionStats'') of
        None \<Rightarrow> Inr []
      | Some executionStats \<Rightarrow>
          (case over_examination_lines executionStats of
             Inl e \<Rightarrow> Inl e
           | Inr ws \<Rightarrow>
               Inr (stats_info_lines executionStats @ slow_query_lines executionStats @ ws)))"

text \<open>The block under \<^verbatim>\<open>explainResult["queryPlanner"]\<close>: the stage of the winning plan is
  compared with \<^verbatim>\<open>==\<close> against three literals, in the order of the source.\<close>

definition stage_lines :: "document \<Rightarrow> string \<Rightarrow> log_line list" where
  "stage_lines winningPlan stage =
     (if stage = ''COLLSCAN'' then [CollScanWarning, CollScanDetail]
      else if stage = ''IXSCAN'' then
        IndexScanOk #
          (case as_string (winningPlan ''indexName'') of
             Some indexName \<Rightarrow> [IndexNameLine indexName]
           | None \<Rightarrow> [])
      else if stage = ''FETCH'' then [FetchOk]
      else [])"

definition query_planner_lines :: "document \<Rightarrow> log_line list" where
  "query_planner_lines explainResult =
     (case as_map (explainResult ''queryPlanner'') of
        None \<Rightarrow> []
      | Some queryPlanner \<Rightarrow>
          PlanHeader #
            (case as_map (queryPlanner ''winningPlan'') of
               None \<Rightarrow> []
             | Some winningPlan \<Rightarrow>
                 (case as_string (winningPlan ''stage'') of
                    None \<Rightarrow> []
                  | Some stage \<Rightarrow> StageLine stage # stage_lines winningPlan stage)))"

definition PrintExplainResults :: "document \<Rightarrow> string \<Rightarrow> error + log_line list" where
  "PrintExplainResults explainResult version =
     (case execution_stats_lines explainResult of
        Inl e \<Rightarrow> Inl e
      | Inr stats \<Rightarrow>
          Inr (ExplainHeader version # stats @ query_planner_lines explainResult @
               [JsonHeader, JsonDump explainResult, BlankLine, Separator]))"

section \<open>Scan classification\<close>

datatype ScanClassification = FullScan | IndexScan | IndexFetch | Unknown

text \<open>The stage name the winning plan declares, when the document has one.\<close>

definition winning_stage :: "document \<Rightarrow> string option" where
  "winning_stage explainResult =
     (case as_map (explainResult ''queryPlanner'') of
        None \<Rightarrow> None
      | Some queryPlanner \<Rightarrow>
          (case as_map (queryPlanner ''winningPlan'') of
             None \<Rightarrow> None
           | Some winningPlan \<Rightarrow> as_string (winningPlan ''stage'')))"

text \<open>The analyzer stores no classification: it shows it by the message it writes.  The
  classification a run reports is read off its output.\<close>

fun is_collscan_warning :: "log_line \<Rightarrow> bool" where
  "is_collscan_warning CollScanWarning = True"
| "is_collscan_warning _ = False"

fun is_index_scan_ok :: "log_line \<Rightarrow> bool" where
  "is_index_scan_ok IndexScanOk = True"
| "is_index_scan_ok _ = False"

fun is_fetch_ok :: "log_line \<Rightarrow> bool" where
  "is_fetch_ok FetchOk = True"
| "is_fetch_ok _ = False"

definition reported_classification :: "log_line list \<Rightarrow> ScanClassification" where
  "reported_classification ls =
     (if list_ex is_collscan_warning ls then FullScan
      else if list_ex is_index_scan_ok ls then IndexScan
      else if list_ex is_fetch_ok ls then IndexFetch
      else Unknown)"

definition classify_stage :: "string \<Rightarrow> ScanClassification" where
  "classify_stage stage =
     (if stage = ''COLLSCAN'' then FullScan
      else if stage = ''IXSCAN'' then IndexScan
      else if stage = ''FETCH'' then IndexFetch
      else Unknown)"

section \<open>The store\<close>

text \<open>
  The document store is outside the program.  Of a cursor, the read loops use
  \<^verbatim>\<open>Next\<close>, \<^verbatim>\<open>Decode\<close> and \<^verbatim>\<open>Err\<close> only, so a cursor is the finite sequence of records it
  delivers, each with the outcome of decoding it (\<open>True\<close>: \<^verbatim>\<open>Decode\<close> returns nil), and the
  error \<^verbatim>\<open>Err\<close> reports once \<^verbatim>\<open>Next\<close> has returned false.  The contents of a record are never
  inspected (\<^verbatim>\<open>_ = result\<close>); the type \<open>'a\<close> only tells records apart.
\<close>

record 'a cursor =
  batch :: "('a \<times> bool) list"
  cursor_error :: "error option"

text \<open>\<^verbatim>\<open>col.Aggregate\<close> on the chunk pipeline \<^verbatim>\<open>$match, $skip, $limit, $project\<close>, as a function
  of the two stage arguments that vary: it fails, or opens a cursor.\<close>

type_synonym 'a aggregate_fn = "int64 \<Rightarrow> int64 \<Rightarrow> error + 'a cursor"

section \<open>The parallel read of read_v4\<close>

text \<open>
  One goroutine of \<^verbatim>\<open>main\<close> in read_v4.go (the body of \<^verbatim>\<open>go func(workerID int)\<close>).  A worker
  reads \<^verbatim>\<open>totalCount\<close> and \<^verbatim>\<open>chunkSize\<close>, talks to the store through its own cursor and
  touches shared state only in its final \<^verbatim>\<open>atomic.AddInt64\<close>.  What it does is recorded as
  the requests it sent to the store (\<^verbatim>\<open>$skip\<close>, \<^verbatim>\<open>$limit\<close>), the records its loop iterated,
  the lines it logged, and the argument of its \<^verbatim>\<open>atomic.AddInt64\<close> (\<open>None\<close> when it returns
  before that call).
\<close>

record 'a worker_result =
  requests :: "(int64 \<times> int64) list"
  iterated :: "('a \<times> bool) list"
  worker_logs :: "log_line list"
  contribution :: "int64 option"

definition idle :: "'a worker_result" where
  "idle = \<lparr>requests = [], iterated = [], worker_logs = [], contribution = None\<rparr>"

text \<open>\<^verbatim>\<open>for cursor.Next(ctx) { if err := cursor.Decode(&result); err != nil { log; continue };
  localCount++ }\<close>: a record that fails to decode is logged and the loop goes on with the
  next record.\<close>

fun read_loop :: "nat \<Rightarrow> ('a \<times> bool) list \<Rightarrow> int64 \<Rightarrow> int64 \<times> log_line list" where
  "read_loop workerID [] localCount = (localCount, [])"
| "read_loop workerID ((result, ok) # rest) localCount =
     (if ok then read_loop workerID rest (localCount + 1)
      else (case read_loop workerID rest localCount of
              (n, ls) \<Rightarrow> (n, WorkerDecodeError workerID # ls)))"

text \<open>\<^verbatim>\<open>skip := int64(workerID) * chunkSize\<close>, a product of \<^verbatim>\<open>int64\<close> values: it wraps.\<close>

definition chunk_skip :: "int64 \<Rightarrow> nat \<Rightarrow> int64" where
  "chunk_skip chunk workerID = word_of_nat workerID * chunk"

definition worker :: "'a aggregate_fn \<Rightarrow> int64 \<Rightarrow> int64 \<Rightarrow> nat \<Rightarrow> 'a worker_result" where
  "worker aggregate totalCount chunk workerID =
     (let skip = chunk_skip chunk workerID in
      if totalCount \<le>s skip then idle
      else
        (case aggregate skip chunk of
           Inl err \<Rightarrow>
             \<lparr>requests = [(skip, chunk)], iterated = [],
              worker_logs = [WorkerRequestError workerID err], contribution = None\<rparr>
         | Inr cur \<Rightarrow>
             (case read_loop workerID (batch cur) 0 of
                (localCount, decodeLogs) \<Rightarrow>
                  \<lparr>requests = [(skip, chunk)], iterated = batch cur,
                   worker_logs =
                     decodeLogs @
                     (case cursor_error cur of
                        Some err \<Rightarrow> [WorkerCursorError workerID err]
                      | None \<Rightarrow> []) @
                     [WorkerDone workerID localCount],
                   contribution = Some localCount\<rparr>)))"

text \<open>
  \<^verbatim>\<open>for i := 0; i < numWorkers; i++ { wg.Add(1); go func(workerID int) {...}(i) }\<close> starts one
  worker for every identifier, and \<^verbatim>\<open>wg.Wait()\<close> returns when all of them are done.  The
  workers do not communicate, so each result is a function of the worker's identifier, and
  the total after \<^verbatim>\<open>wg.Wait()\<close> is the sum of the arguments of the atomic additions, in
  whatever order they happened (lemma \<open>foldl_atomic_add_mset\<close>).  The model runs the
  workers in the order of their identifiers.
\<close>

definition dispatch ::
  "'a aggregate_fn \<Rightarrow> int64 \<Rightarrow> int64 \<Rightarrow> nat \<Rightarrow> 'a worker_result list" where
  "dispatch aggregate totalCount chunk workers =
     map (worker aggregate totalCount chunk) [0..<workers]"

definition atomic_add :: "int64 \<Rightarrow> 'a worker_result \<Rightarrow> int64" where
  "atomic_add totalRead r =
     (case contribution r of None \<Rightarrow> totalRead | Some localCount \<Rightarrow> totalRead + localCount)"

definition parallel_read :: "'a aggregate_fn \<Rightarrow> int64 \<Rightarrow> int64 \<Rightarrow> nat \<Rightarrow> int64" where
  "parallel_read aggregate totalCount chunk workers =
     foldl atomic_add 0 (dispatch aggregate totalCount chunk workers)"

text \<open>The constants of \<^verbatim>\<open>main\<close>, and the read itself: \<^verbatim>\<open>CountDocuments\<close> (a failure panics),
  then the parallel read with these constants.  The explain call before the read and the
  report after it are \<open>PrintExplainResults\<close> and \<open>report_metrics\<close>.\<close>

definition numWorkers :: nat where
  "numWorkers = 10"

definition chunkSize :: int64 where
  "chunkSize = 100000"

definition read_v4 :: "error + int64 \<Rightarrow> 'a aggregate_fn \<Rightarrow> error + int64" where
  "read_v4 countDocuments aggregate =
     (case countDocuments of
        Inl err \<Rightarrow> Inl err
      | Inr totalCount \<Rightarrow> Inr (parallel_read aggregate totalCount chunkSize numWorkers))"

section \<open>The single-threaded reads\<close>

text \<open>
  The read loop of read_v1, read_v2, read_v3 and read_v5, which differ in the request that
  opens the cursor (\<^verbatim>\<open>Find\<close> or \<^verbatim>\<open>Aggregate\<close>, with or without projection): a failure to open
  the cursor, a record that fails to decode and a cursor error each \<^verbatim>\<open>panic\<close>.  The progress
  line written every 100000 records does not touch \<^verbatim>\<open>recordCount\<close> and is left out.
\<close>

fun stream_loop :: "('a \<times> bool) list \<Rightarrow> int64 \<Rightarrow> error + int64" where
  "stream_loop [] recordCount = Inr recordCount"
| "stream_loop ((result, ok) # rest) recordCount =
     (if ok then stream_loop rest (recordCount + 1) else Inl DecodeError)"

definition streaming_read :: "error + 'a cursor \<Rightarrow> error + int64" where
  "streaming_read opened =
     (case opened of
        Inl err \<Rightarrow> Inl err
      | Inr cur \<Rightarrow>
          (case stream_loop (batch cur) 0 of
             Inl err \<Rightarrow> Inl err
           | Inr recordCount \<Rightarrow>
               (case cursor_error cur of
                  Some err \<Rightarrow> Inl err
                | None \<Rightarrow> Inr recordCount)))"

text \<open>read_bad loads the whole result with \<^verbatim>\<open>cursor.All\<close>, which returns an error when a
  record does not decode or the cursor fails, and reports \<^verbatim>\<open>len(results)\<close>.\<close>

fun cursor_All :: "'a cursor \<Rightarrow> error + 'a list" where
  "cursor_All cur =
     (if list_all snd (batch cur) then
        (case cursor_error cur of Some err \<Rightarrow> Inl err | None \<Rightarrow> Inr (map fst (batch cur)))
      else Inl DecodeError)"

definition read_bad :: "error + 'a cursor \<Rightarrow> error + int64" where
  "read_bad opened =
     (case opened of
        Inl err \<Rightarrow> Inl err
      | Inr cur \<Rightarrow>
          (case cursor_All cur of
             Inl err \<Rightarrow> Inl err
           | Inr results \<Rightarrow> Inr (word_of_nat (length results))))"

section \<open>A store that serves slices\<close>

text \<open>
  What \<^verbatim>\<open>$skip\<close> and \<^verbatim>\<open>$limit\<close> mean is the store's contract, not the program's.  The claims
  about coverage are stated for a store that holds the matching documents in one order,
  \<open>docs\<close>, and answers a request with records of the slice the two stages select: all of
  them (\<open>slice_store\<close>, which never fails on a valid request), or, more generally, a prefix
  of them with any decoding outcomes (\<open>serves_slices\<close>).
\<close>

definition chunk_slice :: "'a list \<Rightarrow> int64 \<Rightarrow> int64 \<Rightarrow> 'a list" where
  "chunk_slice docs skip limit = take (nat (sint limit)) (drop (nat (sint skip)) docs)"

definition serves_slices :: "'a list \<Rightarrow> 'a aggregate_fn \<Rightarrow> bool" where
  "serves_slices docs aggregate \<longleftrightarrow>
     (\<forall>skip limit cur. aggregate skip limit = Inr cur \<longrightarrow>
        prefix (map fst (batch cur)) (chunk_slice docs skip limit))"

definition slice_store :: "'a list \<Rightarrow> 'a aggregate_fn" where
  "slice_store docs skip limit =
     (if skip <s 0 \<or> limit \<le>s 0 then Inl RequestError
      else Inr \<lparr>batch = map (\<lambda>d. (d, True)) (chunk_slice docs skip limit), cursor_error = None\<rparr>)"

text \<open>The number of records of a worker's batch that decoded.\<close>

definition good_count :: "'a worker_result \<Rightarrow> nat" where
  "good_count r = length (filter snd (iterated r))"

text \<open>The count a worker would contribute if it stopped at its first decode error, as the
  failure policy is worded: the records decoded before that error.\<close>

definition count_until_error :: "('a \<times> bool) list \<Rightarrow> nat" where
  "count_until_error items = length (takeWhile snd items)"

fun is_decode_error_line :: "log_line \<Rightarrow> bool" where
  "is_decode_error_line (WorkerDecodeError w) = True"
| "is_decode_error_line _ = False"

text \<open>A sample store for the failure policy: the request with \<^verbatim>\<open>$skip\<close> 0 answers with three
  records of which the second does not decode, and every other request is rejected.\<close>

definition flaky_cursor :: "unit cursor" where
  "flaky_cursor = \<lparr>batch = [((), True), ((), False), ((), True)], cursor_error = None\<rparr>"

definition flaky_store :: "unit aggregate_fn" where
  "flaky_store skip limit = (if skip = 0 then Inr flaky_cursor else Inl RequestError)"

section \<open>float64 arithmetic\<close>

text \<open>
  \<^verbatim>\<open>PrintMetrics\<close> computes in \<^verbatim>\<open>float64\<close>.  A finite \<^verbatim>\<open>float64\<close> is modelled by the rational
  number it denotes, and every operation by the exact operation followed by rounding to
  the nearest value with a 53-bit significand, ties to even.  The exponent range is not
  bounded: the model agrees with binary64 on results of magnitude from \<open>2 powi - 1022\<close> up to
  \<open>2 ^ 1024\<close> and on zero.  Every value the analyzer computes is one: a converted \<^verbatim>\<open>int64\<close>,
  the quotient of two of them, such a quotient times 100, and a converted \<^verbatim>\<open>int64\<close>
  divided by \<open>2 ^ 20\<close>.
\<close>

definition round_even :: "rat \<Rightarrow> int" where
  "round_even x =
     (let f = \<lfloor>x\<rfloor>; r = x - of_int f in
      if r < 1 / 2 then f else if 1 / 2 < r then f + 1 else if even f then f else f + 1)"

text \<open>The exponent \<open>e\<close> of a positive number: \<open>2 powi e \<le> x < 2 powi (e + 1)\<close>.\<close>

definition binade :: "rat \<Rightarrow> int" where
  "binade x = (if 1 \<le> x then bitlen \<lfloor>x\<rfloor> - 1 else - bitlen (\<lceil>1 / x\<rceil> - 1))"

definition ulp :: "rat \<Rightarrow> rat" where
  "ulp x = 2 powi (binade x - 52)"

definition round_pos :: "rat \<Rightarrow> rat" where
  "round_pos x = of_int (round_even (x / ulp x)) * ulp x"

definition round64 :: "rat \<Rightarrow> rat" where
  "round64 x = (if x = 0 then 0 else if 0 < x then round_pos x else - round_pos (- x))"

text \<open>The conversion \<^verbatim>\<open>float64(n)\<close> of an \<^verbatim>\<open>int64\<close>.\<close>

definition float64 :: "int64 \<Rightarrow> rat" where
  "float64 n = round64 (of_int (sint n))"

section \<open>Metrics\<close>

record ExecutionStats =
  ExecutionTimeMillis :: int64
  TotalDocsExamined :: int64
  TotalKeysExamined :: int64
  NReturned :: int64
  ExecutionStages :: "gvalue option"

text \<open>The field \<^verbatim>\<open>ExecutionStats\<close> of \<^verbatim>\<open>QueryMetrics\<close> is a pointer, \<open>None\<close> when nil; it is
  called \<open>Stats\<close> here, \<open>ExecutionStats\<close> being the name of the record.  \<^verbatim>\<open>RecordsRead\<close> is a Go
  \<^verbatim>\<open>int\<close>, 64 bits wide, and \<^verbatim>\<open>Duration\<close> a \<^verbatim>\<open>time.Duration\<close>, an \<^verbatim>\<open>int64\<close> of nanoseconds.
  The field \<^verbatim>\<open>QueryPlan\<close> is never assigned nor read and is left out.\<close>

record QueryMetrics =
  Duration :: int64
  RecordsRead :: int64
  MemoryUsed :: int64
  Stats :: "ExecutionStats option"

text \<open>\<^verbatim>\<open>memoryUsed := int64(memAfter.Alloc - memBefore.Alloc)\<close>: the samples are \<^verbatim>\<open>uint64\<close>, their
  difference wraps modulo \<open>2 ^ 64\<close>, and the conversion to \<^verbatim>\<open>int64\<close> keeps the 64 bits, which
  are then read as a signed number.\<close>

definition memoryUsed :: "uint64 \<Rightarrow> uint64 \<Rightarrow> int64" where
  "memoryUsed memBefore_Alloc memAfter_Alloc = memAfter_Alloc - memBefore_Alloc"

text \<open>The composite literal \<^verbatim>\<open>&ExecutionStats{}\<close>: every field has its zero value.\<close>

definition zero_stats :: ExecutionStats where
  "zero_stats =
     \<lparr>ExecutionTimeMillis = 0, TotalDocsExamined = 0, TotalKeysExamined = 0, NReturned = 0,
      ExecutionStages = None\<rparr>"

text \<open>\<^verbatim>\<open>if metrics.ExecutionStats == nil { metrics.ExecutionStats = &ExecutionStats{} }\<close>\<close>

definition ensure_stats :: "ExecutionStats option \<Rightarrow> ExecutionStats" where
  "ensure_stats s = (case s of None \<Rightarrow> zero_stats | Some st \<Rightarrow> st)"

text \<open>The four blocks that copy the fields of \<^verbatim>\<open>execStats\<close> into the metrics, the same in
  read_bad, read_v1, read_v2, read_v3, read_v4 and read_v5.\<close>

definition parse_execution_stats :: "document \<Rightarrow> ExecutionStats option" where
  "parse_execution_stats execStats =
     (let s1 = (case as_int64 (execStats ''executionTimeMillis'') of
                  Some execTime \<Rightarrow> Some (zero_stats\<lparr>ExecutionTimeMillis := execTime\<rparr>)
                | None \<Rightarrow> None);
          s2 = (case as_int64 (execStats ''totalDocsExamined'') of
                  Some totalDocs \<Rightarrow> Some ((ensure_stats s1)\<lparr>TotalDocsExamined := totalDocs\<rparr>)
                | None \<Rightarrow> s1);
          s3 = (case as_int64 (execStats ''totalKeysExamined'') of
                  Some totalKeys \<Rightarrow> Some ((ensure_stats s2)\<lparr>TotalKeysExamined := totalKeys\<rparr>)
                | None \<Rightarrow> s2);
          s4 = (case as_int64 (execStats ''nReturned'') of
                  Some nReturned \<Rightarrow> Some ((ensure_stats s3)\<lparr>NReturned := nReturned\<rparr>)
                | None \<Rightarrow> s3)
      in s4)"

section \<open>PrintMetrics\<close>

text \<open>\<^verbatim>\<open>float64(NReturned) / float64(TotalDocsExamined) * 100\<close>\<close>

definition efficiency :: "int64 \<Rightarrow> int64 \<Rightarrow> rat" where
  "efficiency nReturned totalDocsExamined =
     round64 (round64 (float64 nReturned / float64 totalDocsExamined) * 100)"

definition efficiency_lines :: "ExecutionStats \<Rightarrow> log_line list" where
  "efficiency_lines st =
     (if 0 <s TotalDocsExamined st then
        EfficiencyLine (efficiency (NReturned st) (TotalDocsExamined st)) #
          (if efficiency (NReturned st) (TotalDocsExamined st) < 50
           then [LowEfficiencyWarning] else [])
      else [])"

definition PrintMetrics :: "QueryMetrics \<Rightarrow> string \<Rightarrow> log_line list" where
  "PrintMetrics metrics version =
     [MetricsHeader version,
      DurationLine (Duration metrics),
      RecordsLine (RecordsRead metrics),
      MemoryLine (round64 (float64 (MemoryUsed metrics) / (1024 * 1024)))] @
     (case Stats metrics of
        None \<Rightarrow> []
      | Some st \<Rightarrow>
          [MongoStatsHeader,
           MongoTimeLine (ExecutionTimeMillis st),
           MongoDocsLine (TotalDocsExamined st),
           MongoKeysLine (TotalKeysExamined st),
           MongoReturnedLine (NReturned st)] @
          efficiency_lines st) @
     [Separator]"

text \<open>The end of every strategy: when the explain result is non-nil and has an
  \<^verbatim>\<open>executionStats\<close> map, the metrics are built from it and printed.\<close>

definition report_metrics ::
  "document option \<Rightarrow> int64 \<Rightarrow> int64 \<Rightarrow> int64 \<Rightarrow> string \<Rightarrow> log_line list" where
  "report_metrics explainResult duration recordsRead memUsed version =
     (case explainResult of
        None \<Rightarrow> []
      | Some result \<Rightarrow>
          (case as_map (result ''executionStats'') of
             None \<Rightarrow> []
           | Some execStats \<Rightarrow>
               PrintMetrics
                 \<lparr>Duration = duration, RecordsRead = recordsRead, MemoryUsed = memUsed,
                  Stats = parse_execution_stats execStats\<rparr>
                 version))"

section \<open>Reading the output\<close>

fun is_slow_query_warning :: "log_line \<Rightarrow> bool" where
  "is_slow_query_warning SlowQueryWarning = True"
| "is_slow_query_warning _ = False"

fun is_over_examination_warning :: "log_line \<Rightarrow> bool" where
  "is_over_examination_warning (OverExaminationWarning ratio) = True"
| "is_over_examination_warning _ = False"

fun is_efficiency_line :: "log_line \<Rightarrow> bool" where
  "is_efficiency_line (EfficiencyLine e) = True"
| "is_efficiency_line _ = False"

fun is_low_efficiency_warning :: "log_line \<Rightarrow> bool" where
  "is_low_efficiency_warning LowEfficiencyWarning = True"
| "is_low_efficiency_warning _ = False"

text \<open>The value a strategy stores for a field of the execution statistics: the field of the
  parsed \<^verbatim>\<open>ExecutionStats\<close>, where there is one.\<close>

definition int64_or_zero :: "gvalue option \<Rightarrow> int64" where
  "int64_or_zero v = (case as_int64 v of Some n \<Rightarrow> n | None \<Rightarrow> 0)"

fun is_warning :: "log_line \<Rightarrow> bool" where
  "is_warning SlowQueryWarning = True"
| "is_warning (OverExaminationWarning ratio) = True"
| "is_warning CollScanWarning = True"
| "is_warning LowEfficiencyWarning = True"
| "is_warning _ = False"

text \<open>The warnings of a run of \<^verbatim>\<open>PrintExplainResults\<close>, in the order written.\<close>

definition explain_warnings :: "document \<Rightarrow> string \<Rightarrow> log_line list" where
  "explain_warnings explainResult version =
     (case PrintExplainResults explainResult version of
        Inl e \<Rightarrow> []
      | Inr ls \<Rightarrow> filter is_warning ls)"

text \<open>A sample explain result: 150 ms, 100 documents examined, 10 returned.\<close>

definition sample_stats :: document where
  "sample_stats =
     [''executionTimeMillis'' \<mapsto> VInt64 150, ''totalDocsExamined'' \<mapsto> VInt64 100,
      ''nReturned'' \<mapsto> VInt64 10]"

definition sample_explain :: document where
  "sample_explain = [''executionStats'' \<mapsto> VMap sample_stats]"

text \<open>The same statistics with the execution time delivered as an \<^verbatim>\<open>int32\<close>.\<close>

definition int32_stats :: document where
  "int32_stats =
     [''executionTimeMillis'' \<mapsto> VInt32 150, ''totalDocsExamined'' \<mapsto> VInt64 100,
      ''nReturned'' \<mapsto> VInt64 10]"

definition int32_explain :: document where
  "int32_explain = [''executionStats'' \<mapsto> VMap int32_stats]"

section \<open>Facts about PrintExplainResults\<close>

lemma go_div_nonzero: "b \<noteq> 0 \<Longrightarrow> \<exists>q. go_div a b = Inr q"
  by (simp add: go_div_def)

lemma over_examination_lines_total: "\<exists>ws. over_examination_lines es = Inr ws"
proof (cases "as_int64 (es ''totalDocsExamined'')")
  case None
  then show ?thesis by (simp add: over_examination_lines_def)
next
  case (Some totalExamined)
  show ?thesis
  proof (cases "as_int64 (es ''nReturned'')")
    case None
    with Some show ?thesis by (simp add: over_examination_lines_def)
  next
    case inner: (Some nReturned)
    show ?thesis
    proof (cases "0 <s nReturned")
      case True
      then have "nReturned \<noteq> 0" by auto
      then obtain q where "go_div totalExamined nReturned = Inr q"
        using go_div_nonzero by blast
      with Some inner show ?thesis by (simp add: over_examination_lines_def)
    next
      case False
      with Some inner show ?thesis by (simp add: over_examination_lines_def)
    qed
  qed
qed

lemma execution_stats_lines_total: "\<exists>ls. execution_stats_lines d = Inr ls"
proof (cases "as_map (d ''executionStats'')")
  case None
  then show ?thesis by (simp add: execution_stats_lines_def)
next
  case (Some es)
  obtain ws where "over_examination_lines es = Inr ws"
    using over_examination_lines_total by blast
  with Some show ?thesis by (simp add: execution_stats_lines_def)
qed

lemma PrintExplainResults_total: "\<exists>ls. PrintExplainResults d v = Inr ls"
proof -
  obtain stats where "execution_stats_lines d = Inr stats"
    using execution_stats_lines_total by blast
  then show ?thesis by (simp add: PrintExplainResults_def)
qed

lemma over_examination_lines_no_plan:
  assumes "over_examination_lines es = Inr ws"
  shows "\<not> list_ex is_collscan_warning ws \<and> \<not> list_ex is_index_scan_ok ws
         \<and> \<not> list_ex is_fetch_ok ws"
  using assms
  by (auto simp: over_examination_lines_def split: option.splits if_splits sum.splits)

lemma slow_query_lines_no_plan:
  "\<not> list_ex is_collscan_warning (slow_query_lines es)
   \<and> \<not> list_ex is_index_scan_ok (slow_query_lines es)
   \<and> \<not> list_ex is_fetch_ok (slow_query_lines es)"
  by (simp add: slow_query_lines_def split: option.splits)

lemma execution_stats_lines_no_plan:
  assumes "execution_stats_lines d = Inr ls"
  shows "\<not> list_ex is_collscan_warning ls \<and> \<not> list_ex is_index_scan_ok ls
         \<and> \<not> list_ex is_fetch_ok ls"
proof (cases "as_map (d ''executionStats'')")
  case None
  with assms show ?thesis by (simp add: execution_stats_lines_def)
next
  case (Some es)
  with assms obtain ws where ws: "over_examination_lines es = Inr ws"
    and ls: "ls = stats_info_lines es @ slow_query_lines es @ ws"
    by (auto simp: execution_stats_lines_def split: sum.splits)
  from over_examination_lines_no_plan [OF ws] slow_query_lines_no_plan [of es]
  show ?thesis by (simp add: ls stats_info_lines_def)
qed

lemma stage_lines_classification:
  "reported_classification (StageLine stage # stage_lines wp stage) = classify_stage stage"
  by (simp add: reported_classification_def stage_lines_def classify_stage_def
      split: option.splits)

lemma reported_classification_cong:
  assumes "list_ex is_collscan_warning xs = list_ex is_collscan_warning ys"
    and "list_ex is_index_scan_ok xs = list_ex is_index_scan_ok ys"
    and "list_ex is_fetch_ok xs = list_ex is_fetch_ok ys"
  shows "reported_classification xs = reported_classification ys"
  using assms by (simp add: reported_classification_def)

text \<open>
  Claim C1.  For every explain document whose winning plan declares a stage name, the run of
  the analyzer succeeds and the classification its output reports is decided by exact
  string comparison of that name: COLLSCAN gives FullScan, IXSCAN gives IndexScan, FETCH
  gives IndexFetch, and every other string gives Unknown.
\<close>

theorem scan_classification_by_stage:
  assumes "winning_stage explainResult = Some stage"
  shows "\<exists>ls. PrintExplainResults explainResult version = Inr ls
           \<and> reported_classification ls =
               (if stage = ''COLLSCAN'' then FullScan
                else if stage = ''IXSCAN'' then IndexScan
                else if stage = ''FETCH'' then IndexFetch
                else Unknown)"
proof -
  from assms obtain qp wp where qp: "as_map (explainResult ''queryPlanner'') = Some qp"
    and wp: "as_map (qp ''winningPlan'') = Some wp"
    and st: "as_string (wp ''stage'') = Some stage"
    by (auto simp: winning_stage_def split: option.splits)
  obtain stats where stats: "execution_stats_lines explainResult = Inr stats"
    using execution_stats_lines_total by blast
  let ?plan = "StageLine stage # stage_lines wp stage"
  let ?ls = "ExplainHeader version # stats @ query_planner_lines explainResult @
             [JsonHeader, JsonDump explainResult, BlankLine, Separator]"
  have run: "PrintExplainResults explainResult version = Inr ?ls"
    by (simp add: PrintExplainResults_def stats)
  have plan: "query_planner_lines explainResult = PlanHeader # ?plan"
    by (simp add: query_planner_lines_def qp wp st)
  note np = execution_stats_lines_no_plan [OF stats]
  have "reported_classification ?ls = reported_classification ?plan"
    by (rule reported_classification_cong) (simp_all add: plan np)
  also have "\<dots> = classify_stage stage"
    by (rule stage_lines_classification)
  finally have "reported_classification ?ls = classify_stage stage" .
  with run show ?thesis by (simp add: classify_stage_def)
qed

text \<open>The theorem at a document whose winning plan is a collection scan, and at one whose
  stage name differs from COLLSCAN only in case.\<close>

theorem scan_classification_by_stage_witness:
  "winning_stage
     [''queryPlanner'' \<mapsto> VMap [''winningPlan'' \<mapsto> VMap [''stage'' \<mapsto> VString ''COLLSCAN'']]]
     = Some ''COLLSCAN''
   \<and> (\<exists>ls. PrintExplainResults
         [''queryPlanner'' \<mapsto> VMap [''winningPlan'' \<mapsto> VMap [''stage'' \<mapsto> VString ''COLLSCAN'']]]
         ''read_v1'' = Inr ls
       \<and> reported_classification ls = FullScan)"
proof -
  let ?d = "[''queryPlanner'' \<mapsto> VMap [''winningPlan'' \<mapsto> VMap [''stage'' \<mapsto> VString ''COLLSCAN'']]]"
  have h: "winning_stage ?d = Some ''COLLSCAN''"
    by (simp add: winning_stage_def)
  from scan_classification_by_stage [OF h, of "''read_v1''"] h show ?thesis
    by simp
qed

lemma lower_case_stage_is_unknown:
  "PrintExplainResults
     [''queryPlanner'' \<mapsto> VMap [''winningPlan'' \<mapsto> VMap [''stage'' \<mapsto> VString ''collscan'']]]
     ''read_v1''
   = Inr [ExplainHeader ''read_v1'', PlanHeader, StageLine ''collscan'', JsonHeader,
          JsonDump [''queryPlanner'' \<mapsto> VMap [''winningPlan'' \<mapsto> VMap [''stage'' \<mapsto> VString ''collscan'']]],
          BlankLine, Separator]"
  by (simp add: PrintExplainResults_def execution_stats_lines_def query_planner_lines_def
      stage_lines_def)

section \<open>Facts about the parallel read\<close>


lemma sint_word_of_nat_mult:
  assumes "- (2 ^ 63) \<le> int i * sint cs" and "int i * sint cs < 2 ^ 63"
  shows "sint (word_of_nat i * cs :: 64 word) = int i * sint cs"
proof -
  have "word_of_nat i * cs = (word_of_int (int i * sint cs) :: 64 word)"
    by simp
  then have "sint (word_of_nat i * cs) = signed_take_bit 63 (int i * sint cs)"
    by (simp only: sint_sbintrunc') simp
  also have "\<dots> = int i * sint cs"
    using assms by (intro signed_take_bit_int_eq_self) auto
  finally show ?thesis .
qed

lemma sint_word_of_nat:
  assumes "n < 2 ^ 63"
  shows "sint (word_of_nat n :: 64 word) = int n"
proof -
  have "(word_of_nat n :: 64 word) = word_of_int (int n)" by simp
  then have "sint (word_of_nat n :: 64 word) = signed_take_bit 63 (int n)"
    by (simp only: sint_sbintrunc') simp
  also have "\<dots> = int n"
    using assms by (intro signed_take_bit_int_eq_self) auto
  finally show ?thesis .
qed

lemma chunk_skip_exact:
  assumes "0 \<le> sint chunk" and "int workers * sint chunk < 2 ^ 63" and "i < workers"
  shows "sint (chunk_skip chunk i) = int i * sint chunk"
proof -
  have "int i * sint chunk \<le> int workers * sint chunk"
    using assms(1,3) by (simp add: mult_right_mono)
  with assms(2) have up: "int i * sint chunk < 2 ^ 63" by simp
  have "0 \<le> int i * sint chunk"
    using assms(1) by simp
  then have low: "- (2 ^ 63) \<le> int i * sint chunk" by simp
  show ?thesis
    unfolding chunk_skip_def using low up by (rule sint_word_of_nat_mult)
qed

lemma read_loop_count:
  "fst (read_loop w items c) = c + word_of_nat (length (filter snd items))"
  by (induction w items c rule: read_loop.induct) (auto split: prod.splits)

lemma dispatch_length: "length (dispatch aggregate totalCount chunk workers) = workers"
  by (simp add: dispatch_def)

lemma dispatch_nth:
  "i < workers \<Longrightarrow> dispatch aggregate totalCount chunk workers ! i = worker aggregate totalCount chunk i"
  by (simp add: dispatch_def)



lemma scenario_params:
  "0 <s chunkSize" "int numWorkers * sint chunkSize < 2 ^ 63" "nat (sint chunkSize) = 100000"
  "sint (250000 :: int64) = 250000"
  by (simp_all add: chunkSize_def numWorkers_def word_sless_alt)



lemma read_loop_0:
  "read_loop i items 0 = (n, ls) \<Longrightarrow> n = word_of_nat (length (filter snd items))"
  using read_loop_count [of i items 0] by simp

lemma atomic_add_worker:
  "atomic_add t (worker aggregate totalCount chunk i)
     = t + word_of_nat (good_count (worker aggregate totalCount chunk i))"
proof (cases "totalCount \<le>s chunk_skip chunk i")
  case True
  then show ?thesis
    by (simp add: worker_def atomic_add_def good_count_def idle_def)
next
  case False
  show ?thesis
  proof (cases "aggregate (chunk_skip chunk i) chunk")
    case (Inl err)
    with False show ?thesis
      by (simp add: worker_def atomic_add_def good_count_def)
  next
    case (Inr cur)
    obtain n ls where loop: "read_loop i (batch cur) 0 = (n, ls)"
      by (cases "read_loop i (batch cur) 0")
    from read_loop_0 [OF loop] False Inr loop show ?thesis
      by (simp add: worker_def atomic_add_def good_count_def)
  qed
qed

lemma foldl_atomic_add_workers:
  "foldl atomic_add t (map (worker aggregate totalCount chunk) is)
     = t + word_of_nat (sum_list (map (\<lambda>i. good_count (worker aggregate totalCount chunk i)) is))"
  by (induction "is" arbitrary: t) (simp_all add: atomic_add_worker)

lemma parallel_read_sum:
  "parallel_read aggregate totalCount chunk workers
     = word_of_nat (\<Sum>i\<leftarrow>[0..<workers]. good_count (worker aggregate totalCount chunk i))"
  by (simp add: parallel_read_def dispatch_def foldl_atomic_add_workers)

text \<open>The additions commute: the order in which the workers finish does not change the total.\<close>

lemma foldl_atomic_add_mset:
  "mset rs = mset rs' \<Longrightarrow> foldl atomic_add t rs = foldl atomic_add t rs'"
proof -
  have *: "foldl atomic_add t rs = t + sum_list (map (\<lambda>r. atomic_add 0 r) rs)" for t and rs :: "'a worker_result list"
    by (induction rs arbitrary: t) (auto simp: atomic_add_def split: option.splits)
  assume "mset rs = mset rs'"
  then have "mset (map (\<lambda>r. atomic_add 0 r) rs) = mset (map (\<lambda>r. atomic_add 0 r) rs')"
    by (metis mset_map)
  then have "sum_list (map (\<lambda>r. atomic_add 0 r) rs) = sum_list (map (\<lambda>r. atomic_add 0 r) rs')"
    by (metis sum_mset_sum_list)
  then show ?thesis by (simp add: *)
qed

lemma set_take_drop_subset: "set (take c (drop s xs)) \<subseteq> set (take (s + c) xs)"
  by (simp add: take_add)

lemma worker_iterated_prefix:
  assumes "serves_slices docs aggregate"
  shows "prefix (map fst (iterated (worker aggregate totalCount chunk i)))
           (chunk_slice docs (chunk_skip chunk i) chunk)"
  using assms
  by (auto simp: worker_def idle_def Let_def serves_slices_def split: sum.splits prod.splits)

lemma good_count_le_chunk:
  assumes "serves_slices docs aggregate"
  shows "good_count (worker aggregate totalCount chunk i) \<le> nat (sint chunk)"
proof -
  let ?r = "worker aggregate totalCount chunk i"
  have "good_count ?r \<le> length (iterated ?r)"
    by (simp add: good_count_def)
  also have "\<dots> = length (map fst (iterated ?r))" by simp
  also have "\<dots> \<le> length (chunk_slice docs (chunk_skip chunk i) chunk)"
    using worker_iterated_prefix [OF assms] by (rule prefix_length_le)
  also have "\<dots> \<le> nat (sint chunk)"
    by (simp add: chunk_slice_def)
  finally show ?thesis .
qed

lemma sum_list_bounded:
  "(\<And>x. x \<in> set xs \<Longrightarrow> f x \<le> (c::nat)) \<Longrightarrow> sum_list (map f xs) \<le> length xs * c"
  by (induction xs) (auto simp: add_mono)

lemma total_good_count_le:
  assumes "serves_slices docs aggregate"
  shows "(\<Sum>i\<leftarrow>[0..<workers]. good_count (worker aggregate totalCount chunk i))
           \<le> workers * nat (sint chunk)"
  using sum_list_bounded [of "[0..<workers]" "\<lambda>i. good_count (worker aggregate totalCount chunk i)" "nat (sint chunk)"]
    good_count_le_chunk [OF assms]
  by simp

lemma nat_chunk_skip:
  assumes "0 \<le> sint chunk" and "int workers * sint chunk < 2 ^ 63" and "i < workers"
  shows "nat (sint (chunk_skip chunk i)) = i * nat (sint chunk)"
  using chunk_skip_exact [OF assms] by (simp add: nat_mult_distrib)

lemma serves_slices_slice_store: "serves_slices docs (slice_store docs)"
  by (auto simp: serves_slices_def slice_store_def o_def split: if_splits)

text \<open>
  Claim C4.  Let the store answer every request with records of the requested slice of the
  matching documents \<open>docs\<close>, and let the count be their number.  When
  \<open>workers * chunk\<close> is less than that count, the total the parallel read returns is at
  most \<open>workers * chunk\<close> and strictly less than the count, every record a worker iterates
  lies among the first \<open>workers * chunk\<close> documents, and (the documents being distinct) no
  worker iterates a document at a position from \<open>workers * chunk\<close> on.
\<close>

theorem trailing_records_unread:
  assumes serves: "serves_slices docs aggregate"
    and total: "sint totalCount = int (length docs)"
    and chunk: "0 <s chunk"
    and gap: "int workers * sint chunk < int (length docs)"
  shows "sint (parallel_read aggregate totalCount chunk workers) \<le> int workers * sint chunk
    \<and> sint (parallel_read aggregate totalCount chunk workers) < sint totalCount
    \<and> (\<forall>r \<in> set (dispatch aggregate totalCount chunk workers).
          fst ` set (iterated r) \<subseteq> set (take (workers * nat (sint chunk)) docs))
    \<and> (distinct docs \<longrightarrow>
         (\<forall>k. workers * nat (sint chunk) \<le> k \<and> k < length docs \<longrightarrow>
            (\<forall>r \<in> set (dispatch aggregate totalCount chunk workers).
               docs ! k \<notin> fst ` set (iterated r))))"
proof -
  let ?c = "nat (sint chunk)"
  let ?n = "\<Sum>i\<leftarrow>[0..<workers]. good_count (worker aggregate totalCount chunk i)"
  from chunk have pos: "0 < sint chunk" by (simp add: word_sless_alt)
  then have nonneg: "0 \<le> sint chunk" by simp
  have "int (length docs) < 2 ^ 63"
    using sint_lt [of totalCount] total by simp
  with gap have bound: "int workers * sint chunk < 2 ^ 63" by simp
  have wc: "int (workers * ?c) = int workers * sint chunk"
    using nonneg by simp
  have le: "?n \<le> workers * ?c"
    by (rule total_good_count_le [OF serves])
  then have "int ?n \<le> int workers * sint chunk"
    using wc by linarith
  with bound have "int ?n < 2 ^ 63" by linarith
  then have "?n < 2 ^ 63" by simp
  then have sint_total: "sint (parallel_read aggregate totalCount chunk workers) = int ?n"
    by (simp add: parallel_read_sum sint_word_of_nat)
  have first: "sint (parallel_read aggregate totalCount chunk workers) \<le> int workers * sint chunk"
    using sint_total le wc by linarith
  have second: "sint (parallel_read aggregate totalCount chunk workers) < sint totalCount"
    using first gap total by simp
  have cover: "fst ` set (iterated r) \<subseteq> set (take (workers * ?c) docs)"
    if "r \<in> set (dispatch aggregate totalCount chunk workers)" for r
  proof -
    from that obtain i where i: "i < workers" and r: "r = worker aggregate totalCount chunk i"
      by (auto simp: dispatch_def)
    have "set (map fst (iterated r)) \<subseteq> set (chunk_slice docs (chunk_skip chunk i) chunk)"
      unfolding r using worker_iterated_prefix [OF serves] by (rule set_mono_prefix)
    also have "\<dots> = set (take ?c (drop (i * ?c) docs))"
      by (simp add: chunk_slice_def nat_chunk_skip [OF nonneg bound i])
    also have "\<dots> \<subseteq> set (take (i * ?c + ?c) docs)"
      by (rule set_take_drop_subset)
    also have "\<dots> \<subseteq> set (take (workers * ?c) docs)"
    proof (rule set_take_subset_set_take)
      from i have "Suc i \<le> workers" by simp
      then have "Suc i * ?c \<le> workers * ?c" by (rule mult_le_mono1)
      then show "i * ?c + ?c \<le> workers * ?c" by simp
    qed
    finally show ?thesis by simp
  qed
  have unread: "docs ! k \<notin> fst ` set (iterated r)"
    if "distinct docs" "workers * ?c \<le> k" "k < length docs"
      "r \<in> set (dispatch aggregate totalCount chunk workers)" for k r
  proof
    assume "docs ! k \<in> fst ` set (iterated r)"
    with cover [OF that(4)] have "docs ! k \<in> set (take (workers * ?c) docs)" by blast
    then obtain j where j: "j < length (take (workers * ?c) docs)"
      and eq: "take (workers * ?c) docs ! j = docs ! k"
      by (auto simp: in_set_conv_nth)
    from j have "j < workers * ?c" "j < length docs" by simp_all
    with eq have "docs ! j = docs ! k" by simp
    with that(1,3) \<open>j < length docs\<close> have "j = k"
      by (simp add: nth_eq_iff_index_eq)
    with \<open>j < workers * ?c\<close> that(2) show False by simp
  qed
  from first second cover unread show ?thesis by blast
qed

theorem trailing_records_unread_witness:
  "serves_slices [0, 1, 2, 3, 4 :: nat] (slice_store [0, 1, 2, 3, 4])
   \<and> sint (5 :: int64) = int (length [0, 1, 2, 3, 4 :: nat])
   \<and> 0 <s (2 :: int64)
   \<and> int 2 * sint (2 :: int64) < int (length [0, 1, 2, 3, 4 :: nat])
   \<and> distinct [0, 1, 2, 3, 4 :: nat]
   \<and> sint (parallel_read (slice_store [0, 1, 2, 3, 4 :: nat]) 5 2 2) \<le> 4
   \<and> sint (parallel_read (slice_store [0, 1, 2, 3, 4 :: nat]) 5 2 2) < 5
   \<and> 4 \<notin> fst ` set (iterated (worker (slice_store [0, 1, 2, 3, 4 :: nat]) 5 2 0))
   \<and> 4 \<notin> fst ` set (iterated (worker (slice_store [0, 1, 2, 3, 4 :: nat]) 5 2 1))"
proof -
  let ?docs = "[0, 1, 2, 3, 4 :: nat]"
  have h1: "serves_slices ?docs (slice_store ?docs)"
    by (rule serves_slices_slice_store)
  have h2: "sint (5 :: int64) = int (length ?docs)" by simp
  have h3: "0 <s (2 :: int64)" by (simp add: word_sless_alt)
  have h4: "int 2 * sint (2 :: int64) < int (length ?docs)" by simp
  have h5: "distinct ?docs" by simp
  note t = trailing_records_unread [OF h1 h2 h3 h4]
  have members: "worker (slice_store ?docs) 5 2 0 \<in> set (dispatch (slice_store ?docs) 5 2 2)"
    "worker (slice_store ?docs) 5 2 1 \<in> set (dispatch (slice_store ?docs) 5 2 2)"
    by (simp_all add: dispatch_def)
  from t have a: "sint (parallel_read (slice_store ?docs) 5 2 2) \<le> 4"
    "sint (parallel_read (slice_store ?docs) 5 2 2) < 5"
    by simp_all
  from t h5 have "\<And>k r. 2 * nat (sint (2 :: int64)) \<le> k \<Longrightarrow> k < length ?docs \<Longrightarrow>
      r \<in> set (dispatch (slice_store ?docs) 5 2 2) \<Longrightarrow> ?docs ! k \<notin> fst ` set (iterated r)"
    by blast
  from this [of 4, OF _ _ members(1)] this [of 4, OF _ _ members(2)]
  have b: "4 \<notin> fst ` set (iterated (worker (slice_store ?docs) 5 2 0))"
    "4 \<notin> fst ` set (iterated (worker (slice_store ?docs) 5 2 1))"
    by simp_all
  from h1 h2 h3 h4 h5 a b show ?thesis by blast
qed

lemma read_loop_all_good:
  "read_loop i (map (\<lambda>d. (d, True)) xs) n = (n + word_of_nat (length xs), [])"
  by (induction xs arbitrary: n) (simp_all add: add.assoc add.commute)

lemma worker_slice_store:
  assumes chunk: "0 <s chunk" and bound: "int workers * sint chunk < 2 ^ 63"
    and total: "sint totalCount = int (length docs)" and i: "i < workers"
  shows "worker (slice_store docs) totalCount chunk i =
     (if length docs \<le> i * nat (sint chunk) then idle
      else \<lparr>requests = [(chunk_skip chunk i, chunk)],
            iterated = map (\<lambda>d. (d, True)) (take (nat (sint chunk)) (drop (i * nat (sint chunk)) docs)),
            worker_logs = [WorkerDone i (word_of_nat (min (nat (sint chunk)) (length docs - i * nat (sint chunk))))],
            contribution = Some (word_of_nat (min (nat (sint chunk)) (length docs - i * nat (sint chunk))))\<rparr>)"
proof -
  let ?c = "nat (sint chunk)"
  from chunk have pos: "0 < sint chunk" by (simp add: word_sless_alt)
  then have nonneg: "0 \<le> sint chunk" by simp
  have skip: "sint (chunk_skip chunk i) = int i * sint chunk"
    by (rule chunk_skip_exact [OF nonneg bound i])
  have nskip: "nat (sint (chunk_skip chunk i)) = i * ?c"
    by (rule nat_chunk_skip [OF nonneg bound i])
  have ic: "int (i * ?c) = int i * sint chunk" using nonneg by simp
  have "totalCount \<le>s chunk_skip chunk i \<longleftrightarrow> int (length docs) \<le> int (i * ?c)"
    unfolding word_sle_eq skip total ic ..
  then have cmp: "totalCount \<le>s chunk_skip chunk i \<longleftrightarrow> length docs \<le> i * ?c"
    by (simp only: of_nat_le_iff)
  have "0 \<le> int i * sint chunk" using nonneg by simp
  then have a: "\<not> sint (chunk_skip chunk i) < 0"
    unfolding skip by linarith
  have b: "\<not> sint chunk \<le> 0" using pos by linarith
  have ok: "\<not> (chunk_skip chunk i <s 0 \<or> chunk \<le>s 0)"
    using a b by (simp add: word_sless_alt word_sle_eq)
  show ?thesis
  proof (cases "length docs \<le> i * ?c")
    case True
    with cmp show ?thesis by (simp add: worker_def)
  next
    case False
    with cmp have run: "\<not> totalCount \<le>s chunk_skip chunk i" by simp
    have sl: "chunk_slice docs (chunk_skip chunk i) chunk = take ?c (drop (i * ?c) docs)"
      by (simp add: chunk_slice_def nskip)
    have mc: "min (length docs - i * ?c) ?c = min ?c (length docs - i * ?c)"
      by (rule min.commute)
    from False run ok show ?thesis
      by (simp add: worker_def slice_store_def read_loop_all_good sl mc)
  qed
qed

lemma sum_chunks:
  "(\<Sum>i\<leftarrow>[0..<w]. min c (n - i * c)) = min (w * c) (n::nat)"
proof (induction w)
  case 0
  then show ?case by simp
next
  case (Suc w)
  have "min (w * c) n + min c (n - w * c) = min (w * c + c) n"
    by (cases "w * c \<le> n") simp_all
  with Suc show ?case by (simp add: add.commute)
qed

lemma good_count_slice_store:
  assumes "0 <s chunk" and "int workers * sint chunk < 2 ^ 63"
    and "sint totalCount = int (length docs)" and "i < workers"
  shows "good_count (worker (slice_store docs) totalCount chunk i)
           = min (nat (sint chunk)) (length docs - i * nat (sint chunk))"
proof -
  let ?c = "nat (sint chunk)"
  have f: "filter snd (map (\<lambda>d. (d, True)) xs) = map (\<lambda>d. (d, True)) xs" for xs :: "'a list"
    by (induction xs) simp_all
  show ?thesis
  proof (cases "length docs \<le> i * ?c")
    case True
    then show ?thesis
      by (simp add: worker_slice_store [OF assms] good_count_def idle_def)
  next
    case False
    have "length (take ?c (drop (i * ?c) docs)) = min ?c (length docs - i * ?c)"
      by (simp add: min.commute)
    with False show ?thesis
      by (simp only: worker_slice_store [OF assms] good_count_def f if_False
          worker_result.simps length_map)
  qed
qed

lemma parallel_read_slice_store:
  assumes "0 <s chunk" and "int workers * sint chunk < 2 ^ 63"
    and "sint totalCount = int (length docs)"
  shows "parallel_read (slice_store docs) totalCount chunk workers
           = word_of_nat (min (workers * nat (sint chunk)) (length docs))"
proof -
  have "map (\<lambda>i. good_count (worker (slice_store docs) totalCount chunk i)) [0..<workers]
      = map (\<lambda>i. min (nat (sint chunk)) (length docs - i * nat (sint chunk))) [0..<workers]"
    by (rule map_cong) (simp_all add: good_count_slice_store [OF assms])
  then have "(\<Sum>i\<leftarrow>[0..<workers]. good_count (worker (slice_store docs) totalCount chunk i))
      = min (workers * nat (sint chunk)) (length docs)"
    by (simp only: sum_chunks)
  then show ?thesis
    by (simp only: parallel_read_sum)
qed

lemma scenario_total:
  assumes "length docs = 250000"
  shows "read_v4 (Inr 250000) (slice_store docs) = Inr 250000"
proof -
  have t: "sint (250000 :: int64) = int (length docs)"
    using assms by simp
  show ?thesis
    using parallel_read_slice_store [OF scenario_params(1,2) t]
    by (simp add: read_v4_def scenario_params(3) numWorkers_def assms)
qed

lemma scenario_worker:
  assumes "length docs = 250000" and "i < numWorkers"
  shows "worker (slice_store docs) 250000 chunkSize i =
     (if 250000 \<le> i * 100000 then idle
      else \<lparr>requests = [(chunk_skip chunkSize i, chunkSize)],
            iterated = map (\<lambda>d. (d, True)) (take 100000 (drop (i * 100000) docs)),
            worker_logs = [WorkerDone i (word_of_nat (min 100000 (250000 - i * 100000)))],
            contribution = Some (word_of_nat (min 100000 (250000 - i * 100000)))\<rparr>)"
proof -
  have t: "sint (250000 :: int64) = int (length docs)"
    using assms by simp
  show ?thesis
    using worker_slice_store [OF scenario_params(1,2) t assms(2)]
    by (simp add: scenario_params(3) assms(1))
qed

text \<open>
  Claim C5, as amended.  With 250000 matching documents, 10 workers and chunks of 100000,
  on a store that serves every slice without error: worker 0 requests skip 0 with limit
  100000 and reads 100000 records, worker 1 requests skip 100000 with limit 100000 and
  reads 100000, worker 2 requests skip 200000 with limit 100000 and reads the remaining
  50000, workers 3 to 9 are idle, and the total read is 250000, the count itself.
\<close>

theorem chunk_scenario:
  assumes "length docs = 250000"
  shows "length (dispatch (slice_store docs) 250000 chunkSize numWorkers) = 10
    \<and> requests (dispatch (slice_store docs) 250000 chunkSize numWorkers ! 0) = [(0, 100000)]
    \<and> contribution (dispatch (slice_store docs) 250000 chunkSize numWorkers ! 0) = Some 100000
    \<and> requests (dispatch (slice_store docs) 250000 chunkSize numWorkers ! 1) = [(100000, 100000)]
    \<and> contribution (dispatch (slice_store docs) 250000 chunkSize numWorkers ! 1) = Some 100000
    \<and> requests (dispatch (slice_store docs) 250000 chunkSize numWorkers ! 2) = [(200000, 100000)]
    \<and> contribution (dispatch (slice_store docs) 250000 chunkSize numWorkers ! 2) = Some 50000
    \<and> (\<forall>i. 3 \<le> i \<and> i < 10 \<longrightarrow>
          dispatch (slice_store docs) 250000 chunkSize numWorkers ! i = idle)
    \<and> read_v4 (Inr 250000) (slice_store docs) = Inr 250000"
proof -
  have w0: "worker (slice_store docs) 250000 chunkSize 0 =
      \<lparr>requests = [(0, 100000)], iterated = map (\<lambda>d. (d, True)) (take 100000 docs),
       worker_logs = [WorkerDone 0 100000], contribution = Some 100000\<rparr>"
    using scenario_worker [OF assms, of 0]
    by (simp add: numWorkers_def chunk_skip_def chunkSize_def)
  have w1: "worker (slice_store docs) 250000 chunkSize 1 =
      \<lparr>requests = [(100000, 100000)],
       iterated = map (\<lambda>d. (d, True)) (take 100000 (drop 100000 docs)),
       worker_logs = [WorkerDone 1 100000], contribution = Some 100000\<rparr>"
    using scenario_worker [OF assms, of 1]
    by (simp add: numWorkers_def chunk_skip_def chunkSize_def)
  have w2: "worker (slice_store docs) 250000 chunkSize 2 =
      \<lparr>requests = [(200000, 100000)],
       iterated = map (\<lambda>d. (d, True)) (take 100000 (drop 200000 docs)),
       worker_logs = [WorkerDone 2 50000], contribution = Some 50000\<rparr>"
    using scenario_worker [OF assms, of 2]
    by (simp add: numWorkers_def chunk_skip_def chunkSize_def)
  have rest: "worker (slice_store docs) 250000 chunkSize i = idle" if "3 \<le> i" "i < 10" for i
  proof -
    from that have "250000 \<le> i * 100000" by simp
    with scenario_worker [OF assms, of i] that show ?thesis
      by (simp add: numWorkers_def)
  qed
  show ?thesis
    using w0 w1 w2 rest scenario_total [OF assms]
    by (simp add: dispatch_length dispatch_nth numWorkers_def)
qed

theorem chunk_scenario_witness:
  "length (replicate 250000 ()) = 250000
   \<and> requests (dispatch (slice_store (replicate 250000 ())) 250000 chunkSize numWorkers ! 2)
       = [(200000, 100000)]
   \<and> contribution (dispatch (slice_store (replicate 250000 ())) 250000 chunkSize numWorkers ! 2)
       = Some 50000
   \<and> dispatch (slice_store (replicate 250000 ())) 250000 chunkSize numWorkers ! 9 = idle
   \<and> read_v4 (Inr 250000) (slice_store (replicate 250000 ())) = Inr 250000"
proof -
  have h: "length (replicate 250000 ()) = 250000" by simp
  from chunk_scenario [OF h] h show ?thesis by simp
qed

text \<open>The claim as stated expects a total different from the count in this scenario; the
  run returns the count.\<close>

theorem chunk_scenario_total_equals_count:
  "read_v4 (Inr 250000) (slice_store (replicate 250000 ())) = Inr 250000"
  by (rule scenario_total) simp

lemma stream_loop_decode_error:
  "\<not> list_all snd items \<Longrightarrow> stream_loop items n = Inl DecodeError"
  by (induction items n rule: stream_loop.induct) simp_all

lemma read_loop_logs:
  "length (filter is_decode_error_line (snd (read_loop w items n)))
     = length (filter (\<lambda>x. \<not> snd x) items)"
  by (induction w items n rule: read_loop.induct) (auto split: prod.splits)

lemma read_loop_logs_only_decode:
  "list_all is_decode_error_line (snd (read_loop w items n))"
  by (induction w items n rule: read_loop.induct) (auto split: prod.splits)

lemma worker_on_cursor:
  assumes "\<not> totalCount \<le>s chunk_skip chunk i"
    and "aggregate (chunk_skip chunk i) chunk = Inr cur"
  shows "iterated (worker aggregate totalCount chunk i) = batch cur"
    and "contribution (worker aggregate totalCount chunk i)
           = Some (word_of_nat (length (filter snd (batch cur))))"
    and "length (filter is_decode_error_line (worker_logs (worker aggregate totalCount chunk i)))
           = length (filter (\<lambda>x. \<not> snd x) (batch cur))"
proof -
  obtain n ls where loop: "read_loop i (batch cur) 0 = (n, ls)"
    by (cases "read_loop i (batch cur) 0")
  have n: "n = word_of_nat (length (filter snd (batch cur)))"
    by (rule read_loop_0 [OF loop])
  have ls: "length (filter is_decode_error_line ls) = length (filter (\<lambda>x. \<not> snd x) (batch cur))"
    using read_loop_logs [of i "batch cur" 0] loop by simp
  from assms loop show "iterated (worker aggregate totalCount chunk i) = batch cur"
    by (simp add: worker_def)
  from assms loop n show "contribution (worker aggregate totalCount chunk i)
           = Some (word_of_nat (length (filter snd (batch cur))))"
    by (simp add: worker_def)
  from assms loop ls show "length (filter is_decode_error_line (worker_logs (worker aggregate totalCount chunk i)))
           = length (filter (\<lambda>x. \<not> snd x) (batch cur))"
    by (simp add: worker_def split: option.splits)
qed

text \<open>
  Claim C7, as amended.  A worker whose request is rejected writes the error and returns
  having iterated nothing and added nothing.  A worker whose cursor opens iterates the whole
  batch: every record that fails to decode is logged and skipped, the loop goes on, and the
  worker adds the number of records that decoded.  A worker's result depends on the answer
  to its own request only, so a failure of another worker cannot change it, and the run
  returns the sum of the workers' counts whatever errors the store returned.  In the
  single-threaded reads a record that fails to decode aborts the run.
\<close>

theorem worker_failure_policy:
  fixes aggregate :: "'a aggregate_fn"
  shows "(\<forall>err. \<not> totalCount \<le>s chunk_skip chunk i
               \<and> aggregate (chunk_skip chunk i) chunk = Inl err \<longrightarrow>
            worker aggregate totalCount chunk i =
              \<lparr>requests = [(chunk_skip chunk i, chunk)], iterated = [],
               worker_logs = [WorkerRequestError i err], contribution = None\<rparr>)
    \<and> (\<forall>cur. \<not> totalCount \<le>s chunk_skip chunk i
               \<and> aggregate (chunk_skip chunk i) chunk = Inr cur \<longrightarrow>
            iterated (worker aggregate totalCount chunk i) = batch cur
            \<and> contribution (worker aggregate totalCount chunk i)
                = Some (word_of_nat (length (filter snd (batch cur))))
            \<and> length (filter is_decode_error_line
                        (worker_logs (worker aggregate totalCount chunk i)))
                = length (filter (\<lambda>x. \<not> snd x) (batch cur)))
    \<and> (\<forall>aggregate' :: 'a aggregate_fn.
          aggregate' (chunk_skip chunk i) chunk = aggregate (chunk_skip chunk i) chunk \<longrightarrow>
            worker aggregate' totalCount chunk i = worker aggregate totalCount chunk i)
    \<and> read_v4 (Inr totalCount) aggregate
         = Inr (word_of_nat (\<Sum>j\<leftarrow>[0..<numWorkers].
                  good_count (worker aggregate totalCount chunkSize j)))
    \<and> (\<forall>cur :: 'a cursor. \<not> list_all snd (batch cur) \<longrightarrow>
          streaming_read (Inr cur) = Inl DecodeError \<and> read_bad (Inr cur) = Inl DecodeError)"
proof -
  have request: "worker aggregate totalCount chunk i =
      \<lparr>requests = [(chunk_skip chunk i, chunk)], iterated = [],
       worker_logs = [WorkerRequestError i err], contribution = None\<rparr>"
    if "\<not> totalCount \<le>s chunk_skip chunk i"
      "aggregate (chunk_skip chunk i) chunk = Inl err" for err
    using that by (simp add: worker_def)
  have indep: "worker aggregate' totalCount chunk i = worker aggregate totalCount chunk i"
    if "aggregate' (chunk_skip chunk i) chunk = aggregate (chunk_skip chunk i) chunk"
    for aggregate' :: "'a aggregate_fn"
    using that by (simp add: worker_def Let_def)
  have run: "read_v4 (Inr totalCount) aggregate
         = Inr (word_of_nat (\<Sum>j\<leftarrow>[0..<numWorkers].
                  good_count (worker aggregate totalCount chunkSize j)))"
    by (simp add: read_v4_def parallel_read_sum)
  have single: "streaming_read (Inr cur) = Inl DecodeError \<and> read_bad (Inr cur) = Inl DecodeError"
    if "\<not> list_all snd (batch cur)" for cur :: "'a cursor"
    using that by (simp add: streaming_read_def read_bad_def stream_loop_decode_error)
  from request worker_on_cursor [of totalCount chunk i aggregate] indep run single
  show ?thesis by blast
qed


theorem worker_failure_policy_witness:
  "\<not> (250000 :: int64) \<le>s chunk_skip chunkSize 0
   \<and> flaky_store (chunk_skip chunkSize 0) chunkSize = Inr flaky_cursor
   \<and> iterated (worker flaky_store 250000 chunkSize 0) = batch flaky_cursor
   \<and> contribution (worker flaky_store 250000 chunkSize 0) = Some 2
   \<and> length (filter is_decode_error_line (worker_logs (worker flaky_store 250000 chunkSize 0))) = 1
   \<and> \<not> (250000 :: int64) \<le>s chunk_skip chunkSize 1
   \<and> flaky_store (chunk_skip chunkSize 1) chunkSize = Inl RequestError
   \<and> worker flaky_store 250000 chunkSize 1 =
        \<lparr>requests = [(100000, 100000)], iterated = [],
         worker_logs = [WorkerRequestError 1 RequestError], contribution = None\<rparr>
   \<and> read_v4 (Inr 250000) flaky_store = Inr 2
   \<and> \<not> list_all snd (batch flaky_cursor)
   \<and> streaming_read (Inr flaky_cursor) = Inl DecodeError
   \<and> read_bad (Inr flaky_cursor) = Inl DecodeError"
proof -
  have s0: "chunk_skip chunkSize 0 = 0" and s1: "chunk_skip chunkSize 1 = 100000"
    and s1': "chunk_skip chunkSize (Suc 0) = 100000"
    by (simp_all add: chunk_skip_def chunkSize_def)
  have r0: "\<not> (250000 :: int64) \<le>s chunk_skip chunkSize 0"
    and r1: "\<not> (250000 :: int64) \<le>s chunk_skip chunkSize 1"
    by (simp_all add: s0 s1 s1' word_sle_eq)
  have a0: "flaky_store (chunk_skip chunkSize 0) chunkSize = Inr flaky_cursor"
    and a1: "flaky_store (chunk_skip chunkSize 1) chunkSize = Inl RequestError"
    by (simp_all add: s0 s1 s1' flaky_store_def)
  have bad: "\<not> list_all snd (batch flaky_cursor)"
    by (simp add: flaky_cursor_def)
  note t0 = worker_failure_policy [of 250000 chunkSize 0 flaky_store]
  note t1 = worker_failure_policy [of 250000 chunkSize 1 flaky_store]
  from t0 r0 a0 have w0: "iterated (worker flaky_store 250000 chunkSize 0) = batch flaky_cursor"
    "contribution (worker flaky_store 250000 chunkSize 0)
       = Some (word_of_nat (length (filter snd (batch flaky_cursor))))"
    "length (filter is_decode_error_line (worker_logs (worker flaky_store 250000 chunkSize 0)))
       = length (filter (\<lambda>x. \<not> snd x) (batch flaky_cursor))"
    by blast+
  from t1 r1 a1 have w1: "worker flaky_store 250000 chunkSize 1 =
        \<lparr>requests = [(chunk_skip chunkSize 1, chunkSize)], iterated = [],
         worker_logs = [WorkerRequestError 1 RequestError], contribution = None\<rparr>"
    by blast
  from t0 bad have single: "streaming_read (Inr flaky_cursor) = Inl DecodeError"
    "read_bad (Inr flaky_cursor) = Inl DecodeError"
    by blast+
  from t0 have "read_v4 (Inr 250000) flaky_store
      = Inr (word_of_nat (\<Sum>j\<leftarrow>[0..<numWorkers]. good_count (worker flaky_store 250000 chunkSize j)))"
    by blast
  moreover have "(\<Sum>j\<leftarrow>[0..<numWorkers]. good_count (worker flaky_store 250000 chunkSize j)) = 2"
    by (simp add: numWorkers_def upt_conv_Cons good_count_def worker_def chunk_skip_def
        chunkSize_def flaky_store_def flaky_cursor_def word_sle_eq idle_def)
  ultimately have run: "read_v4 (Inr 250000) flaky_store = Inr 2"
    by simp
  from r0 a0 w0 r1 a1 w1 run bad single show ?thesis
    by (simp add: flaky_cursor_def chunk_skip_def chunkSize_def)
qed

text \<open>The claim as stated has a worker stop at its first decode error and contribute the
  count accumulated up to it.  On a cursor of three records whose second does not decode,
  that count is 1; the worker contributes 2.\<close>

theorem worker_counts_past_decode_error:
  "contribution (worker flaky_store 3 chunkSize 0) = Some 2
   \<and> count_until_error (batch flaky_cursor) = 1"
  by (simp add: worker_def chunk_skip_def chunkSize_def flaky_store_def flaky_cursor_def
      count_until_error_def word_sle_eq)

section \<open>Facts about float64 rounding\<close>

lemma round64_half: "round64 (1/2) = 1/2" by code_simp
lemma round64_50: "round64 50 = 50" by code_simp
lemma round64_below_half: "round64 (1/2 - 1/2^54) = 1/2 - 1/2^54" by code_simp
lemma round64_below_50: "round64 ((1/2 - 1/2^54) * 100) = 50 - 1 / 2 ^ 47" by code_simp

lemma round_even_of_int [simp]: "round_even (of_int m) = m"
  by (simp add: round_even_def)

lemma round_even_bounds: "\<lfloor>x\<rfloor> \<le> round_even x \<and> round_even x \<le> \<lfloor>x\<rfloor> + 1"
  by (simp add: round_even_def Let_def)

lemma round_even_mono:
  assumes "x \<le> y"
  shows "round_even x \<le> round_even y"
proof (cases "\<lfloor>x\<rfloor> = \<lfloor>y\<rfloor>")
  case True
  then have "x - of_int \<lfloor>x\<rfloor> \<le> y - of_int \<lfloor>y\<rfloor>"
    using assms by simp
  with True show ?thesis
    by (auto simp: round_even_def Let_def)
next
  case False
  moreover have "\<lfloor>x\<rfloor> \<le> \<lfloor>y\<rfloor>" using assms by (rule floor_mono)
  ultimately have "\<lfloor>x\<rfloor> + 1 \<le> \<lfloor>y\<rfloor>" by simp
  with round_even_bounds [of x] round_even_bounds [of y] show ?thesis
    by linarith
qed


lemma binade_bounds:
  assumes "0 < x"
  shows "2 powi binade x \<le> x" and "x < 2 powi (binade x + 1)"
proof -
  have "2 powi binade x \<le> x \<and> x < 2 powi (binade x + 1)"
  proof (cases "1 \<le> x")
    case True
    let ?m = "\<lfloor>x\<rfloor>"
    from True have m: "0 < ?m" by simp
    from bitlen_bounds [OF m] have lo: "2 ^ nat (bitlen ?m - 1) \<le> ?m"
      and hi: "?m < 2 ^ nat (bitlen ?m)" by simp_all
    from m have k: "1 \<le> bitlen ?m"
      by (simp add: bitlen_alt_def)
    have "(2::rat) ^ nat (bitlen ?m - 1) = of_int (2 ^ nat (bitlen ?m - 1))" by simp
    also have "\<dots> \<le> of_int ?m" using lo by (simp only: of_int_le_iff)
    also have "\<dots> \<le> x" by simp
    finally have a: "(2::rat) ^ nat (bitlen ?m - 1) \<le> x" .
    from hi have "?m + 1 \<le> 2 ^ nat (bitlen ?m)" by simp
    then have "(of_int (?m + 1) :: rat) \<le> of_int (2 ^ nat (bitlen ?m))"
      by (simp only: of_int_le_iff)
    moreover have "x < of_int (?m + 1)" by linarith
    ultimately have "x < of_int (2 ^ nat (bitlen ?m))" by (rule less_le_trans [rotated])
    also have "(of_int (2 ^ nat (bitlen ?m)) :: rat) = 2 ^ nat (bitlen ?m)" by simp
    finally have b: "x < (2::rat) ^ nat (bitlen ?m)" .
    have e: "binade x = bitlen ?m - 1" using True by (simp add: binade_def)
    have p1: "(2::rat) powi (bitlen ?m - 1) = 2 ^ nat (bitlen ?m - 1)"
      using k by (simp add: power_int_nonneg_exp)
    have p2: "(2::rat) powi (bitlen ?m - 1 + 1) = 2 ^ nat (bitlen ?m)"
      using k by (simp add: power_int_nonneg_exp)
    show ?thesis unfolding e p1 p2 using a b by (rule conjI)
  next
    case False
    let ?y = "1 / x"
    let ?m = "\<lceil>?y\<rceil> - 1"
    let ?k = "bitlen ?m"
    from False assms have y1: "1 < ?y" by simp
    then have "1 < \<lceil>?y\<rceil>" by (simp add: less_ceiling_iff)
    then have m: "0 < ?m" by simp
    from bitlen_bounds [OF m] have lo: "2 ^ nat (?k - 1) \<le> ?m"
      and hi: "?m < 2 ^ nat ?k" by simp_all
    from m have k: "1 \<le> ?k"
      by (simp add: bitlen_alt_def)
    have my: "of_int ?m < ?y" by linarith
    have "(2::rat) ^ nat (?k - 1) = of_int (2 ^ nat (?k - 1))" by simp
    also have "\<dots> \<le> of_int ?m" using lo by (simp only: of_int_le_iff)
    finally have a: "(2::rat) ^ nat (?k - 1) < ?y" using my by simp
    from hi have "?m + 1 \<le> 2 ^ nat ?k" by simp
    then have "(of_int (?m + 1) :: rat) \<le> of_int (2 ^ nat ?k)"
      by (simp only: of_int_le_iff)
    moreover have "?y \<le> of_int (?m + 1)" by simp
    ultimately have "?y \<le> of_int (2 ^ nat ?k)" by (rule order_trans [rotated])
    also have "(of_int (2 ^ nat ?k) :: rat) = 2 ^ nat ?k" by simp
    finally have b: "?y \<le> (2::rat) ^ nat ?k" .
    have e: "binade x = - ?k" using False by (simp add: binade_def)
    have p1: "(2::rat) powi (- ?k) = 1 / 2 ^ nat ?k"
      using k by (simp add: power_int_def field_simps)
    have p2: "(2::rat) powi (- ?k + 1) = 1 / 2 ^ nat (?k - 1)"
      using k by (simp add: power_int_def field_simps nat_diff_distrib) 
    have c: "1 / 2 ^ nat ?k \<le> x"
      using b assms by (simp add: field_simps)
    have d: "x < 1 / 2 ^ nat (?k - 1)"
      using a assms by (simp add: field_simps)
    show ?thesis unfolding e p1 p2 using c d by (rule conjI)
  qed
  then show "2 powi binade x \<le> x" and "x < 2 powi (binade x + 1)" by simp_all
qed

lemma ulp_pos: "0 < ulp x"
  by (simp add: ulp_def)

lemma ulp_scale: "2 ^ 52 * ulp x = 2 powi binade x" and ulp_scale': "2 ^ 53 * ulp x = 2 powi (binade x + 1)"
proof -
  have "(2::rat) powi binade x = 2 powi (52 + (binade x - 52))" by simp
  also have "\<dots> = 2 powi 52 * 2 powi (binade x - 52)"
    by (rule power_int_add) simp
  finally show "2 ^ 52 * ulp x = 2 powi binade x" by (simp add: ulp_def)
  have "binade x + 1 = 53 + (binade x - 52)" by simp
  then have "(2::rat) powi (binade x + 1) = 2 powi (53 + (binade x - 52))" by (rule arg_cong)
  also have "\<dots> = 2 powi 53 * 2 powi (binade x - 52)"
    by (rule power_int_add) simp
  finally show "2 ^ 53 * ulp x = 2 powi (binade x + 1)" by (simp add: ulp_def)
qed

lemma round_pos_lower:
  assumes "0 < x"
  shows "2 powi binade x \<le> round_pos x"
proof -
  have "2 ^ 52 * ulp x \<le> x"
    using binade_bounds(1) [OF assms] by (simp only: ulp_scale)
  then have "of_int (2 ^ 52) \<le> x / ulp x"
    using ulp_pos [of x] by (simp add: field_simps)
  then have "round_even (of_int (2 ^ 52)) \<le> round_even (x / ulp x)"
    by (rule round_even_mono)
  then have "2 ^ 52 \<le> round_even (x / ulp x)"
    by (simp only: round_even_of_int)
  then have "(of_int (2 ^ 52) :: rat) \<le> of_int (round_even (x / ulp x))"
    by (simp only: of_int_le_iff)
  then have "of_int (2 ^ 52) * ulp x \<le> round_pos x"
    unfolding round_pos_def using ulp_pos [of x] by (simp only: mult_le_cancel_right_pos)
  moreover have "of_int (2 ^ 52) * ulp x = 2 powi binade x"
    using ulp_scale [of x] by simp
  ultimately show ?thesis by simp
qed

lemma round_pos_upper:
  assumes "0 < x"
  shows "round_pos x \<le> 2 powi (binade x + 1)"
proof -
  have "x \<le> 2 ^ 53 * ulp x"
    using binade_bounds(2) [OF assms] by (simp only: ulp_scale')
  then have "x / ulp x \<le> of_int (2 ^ 53)"
    using ulp_pos [of x] by (simp add: field_simps)
  then have "round_even (x / ulp x) \<le> round_even (of_int (2 ^ 53))"
    by (rule round_even_mono)
  then have "round_even (x / ulp x) \<le> 2 ^ 53"
    by (simp only: round_even_of_int)
  then have "(of_int (round_even (x / ulp x)) :: rat) \<le> of_int (2 ^ 53)"
    by (simp only: of_int_le_iff)
  then have "round_pos x \<le> of_int (2 ^ 53) * ulp x"
    unfolding round_pos_def using ulp_pos [of x] by (simp only: mult_le_cancel_right_pos)
  moreover have "of_int (2 ^ 53) * ulp x = 2 powi (binade x + 1)"
    using ulp_scale' [of x] by simp
  ultimately show ?thesis by simp
qed

lemma round_pos_pos: "0 < x \<Longrightarrow> 0 < round_pos x"
proof -
  assume "0 < x"
  then have "2 powi binade x \<le> round_pos x" by (rule round_pos_lower)
  moreover have "(0::rat) < 2 powi binade x" by simp
  ultimately show ?thesis by linarith
qed

lemma binade_mono:
  assumes "0 < x" and "x \<le> y"
  shows "binade x \<le> binade y"
proof (rule ccontr)
  assume "\<not> binade x \<le> binade y"
  then have "binade y + 1 \<le> binade x" by simp
  then have "(2::rat) powi (binade y + 1) \<le> 2 powi binade x"
    by (intro power_int_increasing) simp_all
  also have "\<dots> \<le> x" using assms(1) by (rule binade_bounds(1))
  also have "\<dots> \<le> y" by (rule assms(2))
  also have "\<dots> < 2 powi (binade y + 1)"
    using assms by (intro binade_bounds(2)) simp
  finally show False by simp
qed

lemma round_pos_mono:
  assumes "0 < x" and "x \<le> y"
  shows "round_pos x \<le> round_pos y"
proof (cases "binade x = binade y")
  case True
  then have u: "ulp x = ulp y" by (simp add: ulp_def)
  have "x / ulp y \<le> y / ulp y"
    using assms(2) ulp_pos [of y] by (simp add: divide_right_mono)
  then have "round_even (x / ulp y) \<le> round_even (y / ulp y)"
    by (rule round_even_mono)
  then have "(of_int (round_even (x / ulp y)) :: rat) \<le> of_int (round_even (y / ulp y))"
    by (simp only: of_int_le_iff)
  then show ?thesis
    unfolding round_pos_def u using ulp_pos [of y] by (simp only: mult_le_cancel_right_pos)
next
  case False
  with binade_mono [OF assms] have "binade x + 1 \<le> binade y" by simp
  then have "(2::rat) powi (binade x + 1) \<le> 2 powi binade y"
    by (intro power_int_increasing) simp_all
  moreover have "round_pos x \<le> 2 powi (binade x + 1)"
    using assms(1) by (rule round_pos_upper)
  moreover have "2 powi binade y \<le> round_pos y"
    using assms by (intro round_pos_lower) simp
  ultimately show ?thesis by linarith
qed

lemma round64_mono:
  assumes "x \<le> y"
  shows "round64 x \<le> round64 y"
proof -
  consider "0 < x" | "x \<le> 0" "0 \<le> y" | "y < 0" by linarith
  then show ?thesis
  proof cases
    case 1
    with assms have "0 < y" by simp
    with 1 round_pos_mono [OF 1 assms] show ?thesis by (simp add: round64_def)
  next
    case 2
    have "round64 x \<le> 0"
      using 2(1) round_pos_pos [of "- x"] by (auto simp: round64_def)
    moreover have "0 \<le> round64 y"
      using 2(2) round_pos_pos [of y] by (auto simp: round64_def)
    ultimately show ?thesis by simp
  next
    case 3
    with assms have "x < 0" by simp
    have "0 < - y" "- y \<le> - x" using 3 assms by simp_all
    then have "round_pos (- y) \<le> round_pos (- x)" by (rule round_pos_mono)
    with 3 \<open>x < 0\<close> show ?thesis by (simp add: round64_def)
  qed
qed

lemma round_pos_int:
  assumes "0 < k" and "k < 2 ^ 53"
  shows "round_pos (of_int k) = of_int k"
proof -
  let ?e = "binade (of_int k)"
  from assms(1) have e: "?e = bitlen k - 1" by (simp add: binade_def)
  from assms(2) have "bitlen k \<le> 53"
    by (simp add: bitlen_le_iff_power)
  with e have le: "?e \<le> 52" by simp
  have u: "ulp (of_int k) = 1 / 2 ^ nat (52 - ?e)"
    using le by (simp add: ulp_def power_int_def power_one_over)
  have "of_int k / ulp (of_int k) = (of_int (k * 2 ^ nat (52 - ?e)) :: rat)"
    by (simp add: u)
  then have "round_even (of_int k / ulp (of_int k)) = k * 2 ^ nat (52 - ?e)"
    by (simp only: round_even_of_int)
  then show ?thesis
    by (simp add: round_pos_def u)
qed

lemma round64_int:
  assumes "\<bar>k\<bar> \<le> 2 ^ 53"
  shows "round64 (of_int k) = of_int k"
proof -
  have top: "round64 (2 ^ 53) = 2 ^ 53" by code_simp
  have top': "round64 (- (2 ^ 53)) = - (2 ^ 53)" by code_simp
  consider "k = 0" | "0 < k" "k < 2 ^ 53" | "k < 0" "- k < 2 ^ 53" | "k = 2 ^ 53" | "k = - (2 ^ 53)"
    using assms by linarith
  then show ?thesis
  proof cases
    case 1
    then show ?thesis by (simp add: round64_def)
  next
    case 2
    then show ?thesis using round_pos_int [of k] by (simp add: round64_def)
  next
    case 3
    then show ?thesis using round_pos_int [of "- k"] by (simp add: round64_def)
  next
    case 4
    then show ?thesis using top by simp
  next
    case 5
    then show ?thesis using top' by simp
  qed
qed

section \<open>Facts about the efficiency ratio\<close>

lemma rat_of_int_facts:
  fixes k :: int
  shows "k \<le> 0 \<Longrightarrow> (of_int k :: rat) \<le> 0"
    and "0 < k \<Longrightarrow> (1 :: rat) \<le> of_int k"
    and "0 < k \<Longrightarrow> (0 :: rat) < of_int k"
    and "k < 0 \<Longrightarrow> (of_int k :: rat) \<le> - 1"
  by simp_all

lemma round64_0: "round64 0 = 0"
  by (simp add: round64_def)

lemma float64_exact: "\<bar>sint n\<bar> \<le> 2 ^ 53 \<Longrightarrow> float64 n = of_int (sint n)"
  unfolding float64_def by (rule round64_int)

lemma float64_nonpos: "sint n \<le> 0 \<Longrightarrow> float64 n \<le> 0"
proof -
  assume "sint n \<le> 0"
  then have "(of_int (sint n) :: rat) \<le> 0" by (rule rat_of_int_facts)
  then have "round64 (of_int (sint n)) \<le> round64 0" by (rule round64_mono)
  then show ?thesis by (simp add: float64_def round64_0)
qed

lemma float64_pos: "0 < sint d \<Longrightarrow> 1 \<le> float64 d"
proof -
  assume "0 < sint d"
  then have "(1 :: rat) \<le> of_int (sint d)" by (rule rat_of_int_facts)
  then have "round64 1 \<le> round64 (of_int (sint d))" by (rule round64_mono)
  moreover have "round64 1 = 1" by code_simp
  ultimately show ?thesis by (simp add: float64_def)
qed

lemma efficiency_nonpos:
  assumes "0 < sint d" and "sint n \<le> 0"
  shows "efficiency n d \<le> 0"
proof -
  have "float64 n / float64 d \<le> 0"
    using float64_nonpos [OF assms(2)] float64_pos [OF assms(1)]
    by (simp add: divide_le_0_iff)
  then have "round64 (float64 n / float64 d) \<le> round64 0" by (rule round64_mono)
  then have "round64 (float64 n / float64 d) * 100 \<le> 0"
    by (simp add: round64_0 mult_le_0_iff)
  then have "round64 (round64 (float64 n / float64 d) * 100) \<le> round64 0"
    by (rule round64_mono)
  then show ?thesis by (simp add: efficiency_def round64_0)
qed

lemma efficiency_exact_operands:
  assumes "\<bar>sint n\<bar> \<le> 2 ^ 53" and "\<bar>sint d\<bar> \<le> 2 ^ 53"
  shows "efficiency n d = round64 (round64 (of_int (sint n) / of_int (sint d)) * 100)"
  by (simp add: efficiency_def float64_exact [OF assms(1)] float64_exact [OF assms(2)])

lemma low_efficiency_iff:
  assumes d: "0 < sint d" and bn: "sint n \<le> 2 ^ 53" and bd: "sint d \<le> 2 ^ 53"
  shows "efficiency n d < 50 \<longleftrightarrow> 2 * sint n < sint d"
proof (cases "sint n \<le> 0")
  case True
  with efficiency_nonpos [OF d True] d show ?thesis by simp
next
  case False
  then have n: "0 < sint n" by simp
  let ?q = "of_int (sint n) / of_int (sint d) :: rat"
  have eff: "efficiency n d = round64 (round64 ?q * 100)"
    using n d bn bd by (intro efficiency_exact_operands) simp_all
  have dpos: "(0::rat) < of_int (sint d)" using d by (rule rat_of_int_facts)
  show ?thesis
  proof (cases "2 * sint n < sint d")
    case True
    then have "2 * sint n + 1 \<le> sint d" by simp
    then have "(of_int (2 * sint n + 1) :: rat) \<le> of_int (sint d)"
      by (simp only: of_int_le_iff)
    then have a: "2 * of_int (sint n) + 1 \<le> (of_int (sint d) :: rat)" by simp
    have "(of_int (sint d) :: rat) \<le> of_int (2 ^ 53)"
      using bd by (simp only: of_int_le_iff)
    then have b: "(of_int (sint d) :: rat) \<le> 2 ^ 53" by simp
    have "?q \<le> 1 / 2 - 1 / (2 * of_int (sint d))"
      using a dpos by (simp add: field_simps)
    also have "\<dots> \<le> 1 / 2 - 1 / 2 ^ 54"
      using b dpos by (simp add: field_simps)
    finally have "round64 ?q \<le> round64 (1 / 2 - 1 / 2 ^ 54)" by (rule round64_mono)
    then have "round64 ?q * 100 \<le> (1 / 2 - 1 / 2 ^ 54) * 100"
      by (simp only: round64_below_half) simp
    then have "round64 (round64 ?q * 100) \<le> round64 ((1 / 2 - 1 / 2 ^ 54) * 100)"
      by (rule round64_mono)
    then have "efficiency n d \<le> 50 - 1 / 2 ^ 47"
      by (simp only: round64_below_50 eff)
    then have "efficiency n d < 50" by simp
    with True show ?thesis by simp
  next
    case False
    then have "sint d \<le> 2 * sint n" by simp
    then have "(of_int (sint d) :: rat) \<le> of_int (2 * sint n)"
      by (simp only: of_int_le_iff)
    then have "(of_int (sint d) :: rat) \<le> 2 * of_int (sint n)" by simp
    then have "1 / 2 \<le> ?q"
      using dpos by (simp add: field_simps)
    then have "round64 (1 / 2) \<le> round64 ?q" by (rule round64_mono)
    then have "50 \<le> round64 ?q * 100"
      by (simp only: round64_half)
    then have "round64 50 \<le> round64 (round64 ?q * 100)" by (rule round64_mono)
    then have "50 \<le> efficiency n d"
      by (simp only: round64_50 eff)
    with False show ?thesis by simp
  qed
qed

lemma sint_double:
  assumes "- (2 ^ 62) \<le> sint n" and "sint n < 2 ^ 62"
  shows "sint (n * 2 :: int64) = 2 * sint n"
proof -
  have "n * 2 = (word_of_int (2 * sint n) :: int64)" by simp
  then have "sint (n * 2) = signed_take_bit 63 (2 * sint n)"
    by (simp only: sint_sbintrunc') simp
  also have "\<dots> = 2 * sint n"
    using assms by (intro signed_take_bit_int_eq_self) auto
  finally show ?thesis .
qed

section \<open>Facts about the memory delta\<close>

lemma memoryUsed_exact:
  assumes "- (2 ^ 63) \<le> uint memAfter - uint memBefore"
    and "uint memAfter - uint memBefore < 2 ^ 63"
  shows "sint (memoryUsed memBefore memAfter) = uint memAfter - uint memBefore"
proof -
  have "sint (memAfter - memBefore) = signed_take_bit 63 (uint (memAfter - memBefore))"
    by (simp add: sint_uint)
  also have "\<dots> = signed_take_bit 63 (take_bit 64 (uint memAfter - uint memBefore))"
    by (simp add: uint_word_arith_bintrs)
  also have "\<dots> = signed_take_bit 63 (uint memAfter - uint memBefore)"
    by (simp add: signed_take_bit_take_bit)
  also have "\<dots> = uint memAfter - uint memBefore"
    using assms by (simp add: signed_take_bit_int_eq_self)
  finally show ?thesis by (simp add: memoryUsed_def)
qed

lemma memory_line_negative:
  assumes "sint m < 0"
  shows "round64 (float64 m / (1024 * 1024)) < 0"
proof -
  have "(of_int (sint m) :: rat) \<le> - 1" using assms by (rule rat_of_int_facts)
  then have "round64 (of_int (sint m)) \<le> round64 (- 1)" by (rule round64_mono)
  moreover have "round64 (- 1) = - 1" by code_simp
  ultimately have "float64 m \<le> - 1" by (simp add: float64_def)
  then have "float64 m / (1024 * 1024) \<le> - 1 / (1024 * 1024)"
    by (simp add: field_simps)
  then have "round64 (float64 m / (1024 * 1024)) \<le> round64 (- 1 / (1024 * 1024))"
    by (rule round64_mono)
  moreover have "round64 (- 1 / (1024 * 1024)) = - 1 / (1024 * 1024)" by code_simp
  ultimately show ?thesis by simp
qed

text \<open>
  Claim C9.  Whenever the true difference of the two samples fits a signed 64-bit integer
  (it does for every pair of heap sizes below \<open>2 ^ 63\<close> bytes), the memory delta of a run is
  the after-sample minus the before-sample, computed from two unsigned 64-bit counters.
  When the after-sample is the smaller one the delta is that negative number, not zero,
  and the line \<^verbatim>\<open>PrintMetrics\<close> writes for it carries a negative number of megabytes.
\<close>

theorem memory_delta_signed:
  assumes "- (2 ^ 63) \<le> uint memAfter - uint memBefore"
    and "uint memAfter - uint memBefore < 2 ^ 63"
  shows "sint (memoryUsed memBefore memAfter) = uint memAfter - uint memBefore
    \<and> (memAfter < memBefore \<longrightarrow>
          sint (memoryUsed memBefore memAfter) < 0
          \<and> (\<exists>mb. mb < 0 \<and>
                MemoryLine mb \<in> set (PrintMetrics
                  \<lparr>Duration = duration, RecordsRead = recordsRead,
                   MemoryUsed = memoryUsed memBefore memAfter, Stats = stats\<rparr> version)))"
proof -
  note exact = memoryUsed_exact [OF assms]
  have neg: "sint (memoryUsed memBefore memAfter) < 0" if "memAfter < memBefore"
    using that exact by (simp add: word_less_def)
  have line: "\<exists>mb. mb < 0 \<and>
      MemoryLine mb \<in> set (PrintMetrics
        \<lparr>Duration = duration, RecordsRead = recordsRead,
         MemoryUsed = memoryUsed memBefore memAfter, Stats = stats\<rparr> version)"
    if "memAfter < memBefore"
  proof -
    let ?mb = "round64 (float64 (memoryUsed memBefore memAfter) / (1024 * 1024))"
    have "?mb < 0" using neg [OF that] by (rule memory_line_negative)
    moreover have "MemoryLine ?mb \<in> set (PrintMetrics
        \<lparr>Duration = duration, RecordsRead = recordsRead,
         MemoryUsed = memoryUsed memBefore memAfter, Stats = stats\<rparr> version)"
      by (simp add: PrintMetrics_def)
    ultimately show ?thesis by blast
  qed
  from exact neg line show ?thesis by blast
qed

theorem memory_delta_signed_witness:
  "- (2 ^ 63) \<le> uint (3000 :: uint64) - uint (5000 :: uint64)
   \<and> uint (3000 :: uint64) - uint (5000 :: uint64) < 2 ^ 63
   \<and> (3000 :: uint64) < 5000
   \<and> sint (memoryUsed 5000 3000) = - 2000
   \<and> sint (memoryUsed 5000 3000) < 0"
proof -
  have h1: "- (2 ^ 63) \<le> uint (3000 :: uint64) - uint (5000 :: uint64)" by simp
  have h2: "uint (3000 :: uint64) - uint (5000 :: uint64) < 2 ^ 63" by simp
  have h3: "(3000 :: uint64) < 5000" by simp
  from memory_delta_signed [OF h1 h2] h1 h2 h3 show ?thesis by simp
qed

section \<open>Facts about the warnings\<close>

lemma slow_query_lines_iff:
  "list_ex is_slow_query_warning (slow_query_lines es)
     \<longleftrightarrow> (\<exists>t. as_int64 (es ''executionTimeMillis'') = Some t \<and> 100 <s t)"
  by (simp add: slow_query_lines_def split: option.splits)

lemma slow_query_lines_no_over:
  "\<not> list_ex is_over_examination_warning (slow_query_lines es)"
  by (simp add: slow_query_lines_def split: option.splits)

lemma over_examination_lines_iff:
  assumes "over_examination_lines es = Inr ws"
  shows "list_ex is_over_examination_warning ws
     \<longleftrightarrow> (\<exists>d n. as_int64 (es ''totalDocsExamined'') = Some d
              \<and> as_int64 (es ''nReturned'') = Some n \<and> 0 <s n \<and> n * 2 <s d)"
    and "\<not> list_ex is_slow_query_warning ws"
  using assms
  by (auto simp: over_examination_lines_def split: option.splits if_splits sum.splits)

lemma query_planner_lines_no_stats_warning:
  "\<not> list_ex is_slow_query_warning (query_planner_lines d)"
  "\<not> list_ex is_over_examination_warning (query_planner_lines d)"
  by (simp_all add: query_planner_lines_def stage_lines_def split: option.splits)

lemma PrintExplainResults_no_stats:
  assumes "as_map (d ''executionStats'') = None"
  shows "PrintExplainResults d v =
     Inr (ExplainHeader v # query_planner_lines d @
          [JsonHeader, JsonDump d, BlankLine, Separator])"
  using assms by (simp add: PrintExplainResults_def execution_stats_lines_def)

lemma PrintExplainResults_stats:
  assumes "as_map (d ''executionStats'') = Some es" and "PrintExplainResults d v = Inr ls"
  shows "\<exists>ws. over_examination_lines es = Inr ws
     \<and> ls = ExplainHeader v # (stats_info_lines es @ slow_query_lines es @ ws) @
            query_planner_lines d @ [JsonHeader, JsonDump d, BlankLine, Separator]"
  using assms
  by (auto simp: PrintExplainResults_def execution_stats_lines_def split: sum.splits)

lemma explain_slow_iff:
  assumes "PrintExplainResults d v = Inr ls"
  shows "list_ex is_slow_query_warning ls
     \<longleftrightarrow> (\<exists>es t. as_map (d ''executionStats'') = Some es
              \<and> as_int64 (es ''executionTimeMillis'') = Some t \<and> 100 <s t)"
proof (cases "as_map (d ''executionStats'')")
  case None
  with assms PrintExplainResults_no_stats [of d v, OF None] show ?thesis
    by (auto simp: query_planner_lines_no_stats_warning)
next
  case (Some es)
  from PrintExplainResults_stats [OF Some assms] obtain ws
    where ws: "over_examination_lines es = Inr ws"
      and ls: "ls = ExplainHeader v # (stats_info_lines es @ slow_query_lines es @ ws) @
            query_planner_lines d @ [JsonHeader, JsonDump d, BlankLine, Separator]"
    by blast
  have "list_ex is_slow_query_warning ls \<longleftrightarrow> list_ex is_slow_query_warning (slow_query_lines es)"
    by (simp add: ls stats_info_lines_def over_examination_lines_iff(2) [OF ws]
        query_planner_lines_no_stats_warning)
  with Some show ?thesis by (simp add: slow_query_lines_iff)
qed

lemma explain_over_iff:
  assumes "PrintExplainResults d v = Inr ls"
  shows "list_ex is_over_examination_warning ls
     \<longleftrightarrow> (\<exists>es dd n. as_map (d ''executionStats'') = Some es
              \<and> as_int64 (es ''totalDocsExamined'') = Some dd
              \<and> as_int64 (es ''nReturned'') = Some n \<and> 0 <s n \<and> n * 2 <s dd)"
proof (cases "as_map (d ''executionStats'')")
  case None
  with assms PrintExplainResults_no_stats [of d v, OF None] show ?thesis
    by (auto simp: query_planner_lines_no_stats_warning)
next
  case (Some es)
  from PrintExplainResults_stats [OF Some assms] obtain ws
    where ws: "over_examination_lines es = Inr ws"
      and ls: "ls = ExplainHeader v # (stats_info_lines es @ slow_query_lines es @ ws) @
            query_planner_lines d @ [JsonHeader, JsonDump d, BlankLine, Separator]"
    by blast
  have "list_ex is_over_examination_warning ls \<longleftrightarrow> list_ex is_over_examination_warning ws"
    by (simp add: ls stats_info_lines_def slow_query_lines_no_over
        query_planner_lines_no_stats_warning)
  with Some show ?thesis by (simp add: over_examination_lines_iff(1) [OF ws])
qed

lemma parse_execution_stats_eq:
  "parse_execution_stats es =
     (if as_int64 (es ''executionTimeMillis'') = None \<and> as_int64 (es ''totalDocsExamined'') = None
         \<and> as_int64 (es ''totalKeysExamined'') = None \<and> as_int64 (es ''nReturned'') = None
      then None
      else Some \<lparr>ExecutionTimeMillis = int64_or_zero (es ''executionTimeMillis''),
                 TotalDocsExamined = int64_or_zero (es ''totalDocsExamined''),
                 TotalKeysExamined = int64_or_zero (es ''totalKeysExamined''),
                 NReturned = int64_or_zero (es ''nReturned''),
                 ExecutionStages = None\<rparr>)"
  by (auto simp: parse_execution_stats_def Let_def ensure_stats_def zero_stats_def
      int64_or_zero_def split: option.splits)

lemma efficiency_lines_iff:
  "list_ex is_efficiency_line (efficiency_lines st) \<longleftrightarrow> 0 <s TotalDocsExamined st"
  "list_ex is_low_efficiency_warning (efficiency_lines st)
     \<longleftrightarrow> 0 <s TotalDocsExamined st \<and> efficiency (NReturned st) (TotalDocsExamined st) < 50"
  by (simp_all add: efficiency_lines_def)

lemma PrintMetrics_iff:
  "list_ex is_efficiency_line (PrintMetrics m v)
     \<longleftrightarrow> (\<exists>st. Stats m = Some st \<and> 0 <s TotalDocsExamined st)"
  "list_ex is_low_efficiency_warning (PrintMetrics m v)
     \<longleftrightarrow> (\<exists>st. Stats m = Some st \<and> 0 <s TotalDocsExamined st
              \<and> efficiency (NReturned st) (TotalDocsExamined st) < 50)"
  by (simp_all add: PrintMetrics_def efficiency_lines_iff split: option.splits)

lemma report_metrics_stats:
  assumes "as_map (d ''executionStats'') = Some es"
  shows "report_metrics (Some d) dur recs mem v =
     PrintMetrics \<lparr>Duration = dur, RecordsRead = recs, MemoryUsed = mem,
                   Stats = parse_execution_stats es\<rparr> v"
  using assms by (simp add: report_metrics_def)


lemma ratio_below_50_iff:
  fixes n d :: int
  assumes "0 < d"
  shows "(of_int n / of_int d * 100 :: rat) < 50 \<longleftrightarrow> 2 * n < d"
proof -
  have dpos: "(0::rat) < of_int d" using assms by simp
  have "(of_int n / of_int d * 100 :: rat) < 50 \<longleftrightarrow> (of_int (2 * n) :: rat) < of_int d"
    using dpos by (simp add: field_simps)
  also have "\<dots> \<longleftrightarrow> 2 * n < d" by (simp only: of_int_less_iff)
  finally show ?thesis .
qed

text \<open>
  Claim C2, as amended.  Let the execution statistics of an explain result carry
  \<^verbatim>\<open>executionTimeMillis\<close>, \<^verbatim>\<open>totalDocsExamined\<close> and \<^verbatim>\<open>nReturned\<close> as \<^verbatim>\<open>int64\<close> values \<open>t\<close>,
  \<open>d\<close> and \<open>n\<close>, with \<open>n\<close> of magnitude at most \<open>2 ^ 53\<close> and \<open>d\<close> at most \<open>2 ^ 53\<close>.  Then
  \<^verbatim>\<open>PrintExplainResults\<close> succeeds and writes the latency warning exactly when \<open>t > 100\<close> and
  the over-examination warning exactly when \<open>n > 0\<close> and \<open>d > n * 2\<close>; the closing report
  writes the efficiency line exactly when \<open>d > 0\<close>, its value being \<open>n / d\<close> rounded to
  \<^verbatim>\<open>float64\<close>, times 100, rounded again; and it writes the low-efficiency warning exactly
  when \<open>d > 0\<close> and \<open>n / d\<close> as a percentage is below 50.
\<close>

theorem efficiency_and_latency_warnings:
  assumes stats: "explainResult ''executionStats'' = Some (VMap es)"
    and t: "es ''executionTimeMillis'' = Some (VInt64 t)"
    and d: "es ''totalDocsExamined'' = Some (VInt64 d)"
    and n: "es ''nReturned'' = Some (VInt64 n)"
    and bn: "\<bar>sint n\<bar> \<le> 2 ^ 53" and bd: "sint d \<le> 2 ^ 53"
  shows "(\<exists>ls. PrintExplainResults explainResult version = Inr ls
            \<and> (list_ex is_slow_query_warning ls \<longleftrightarrow> 100 < sint t)
            \<and> (list_ex is_over_examination_warning ls
                 \<longleftrightarrow> 0 < sint n \<and> 2 * sint n < sint d))
    \<and> (list_ex is_efficiency_line
          (report_metrics (Some explainResult) duration recordsRead memUsed version)
         \<longleftrightarrow> 0 < sint d)
    \<and> (0 < sint d \<longrightarrow>
         EfficiencyLine (round64 (round64 (of_int (sint n) / of_int (sint d)) * 100))
           \<in> set (report_metrics (Some explainResult) duration recordsRead memUsed version))
    \<and> (list_ex is_low_efficiency_warning
          (report_metrics (Some explainResult) duration recordsRead memUsed version)
         \<longleftrightarrow> 0 < sint d \<and> (of_int (sint n) / of_int (sint d) * 100 :: rat) < 50)"
proof -
  from stats have m: "as_map (explainResult ''executionStats'') = Some es" by simp
  obtain ls where ls: "PrintExplainResults explainResult version = Inr ls"
    using PrintExplainResults_total by blast
  have slow: "list_ex is_slow_query_warning ls \<longleftrightarrow> 100 < sint t"
    using explain_slow_iff [OF ls] m t by (simp add: word_sless_alt)
  have dbl: "sint (n * 2) = 2 * sint n"
    using bn by (intro sint_double) simp_all
  have over: "list_ex is_over_examination_warning ls \<longleftrightarrow> 0 < sint n \<and> 2 * sint n < sint d"
    using explain_over_iff [OF ls] m d n by (simp add: word_sless_alt dbl)
  let ?st = "\<lparr>ExecutionTimeMillis = t, TotalDocsExamined = d,
              TotalKeysExamined = int64_or_zero (es ''totalKeysExamined''), NReturned = n,
              ExecutionStages = None\<rparr>"
  have parsed: "parse_execution_stats es = Some ?st"
    using t d n by (simp add: parse_execution_stats_eq int64_or_zero_def)
  let ?out = "report_metrics (Some explainResult) duration recordsRead memUsed version"
  have out: "?out = PrintMetrics \<lparr>Duration = duration, RecordsRead = recordsRead,
      MemoryUsed = memUsed, Stats = Some ?st\<rparr> version"
    using report_metrics_stats [of explainResult es, OF m] parsed by simp
  have line: "list_ex is_efficiency_line ?out \<longleftrightarrow> 0 < sint d"
    by (simp add: out PrintMetrics_iff word_sless_alt)
  have shown: "EfficiencyLine (round64 (round64 (of_int (sint n) / of_int (sint d)) * 100))
      \<in> set ?out" if pos: "0 < sint d"
  proof -
    have "\<bar>sint d\<bar> \<le> 2 ^ 53" using pos bd by simp
    from efficiency_exact_operands [OF bn this] pos show ?thesis
      by (simp add: out PrintMetrics_def efficiency_lines_def word_sless_alt)
  qed
  have low: "list_ex is_low_efficiency_warning ?out
      \<longleftrightarrow> 0 < sint d \<and> (of_int (sint n) / of_int (sint d) * 100 :: rat) < 50"
  proof (cases "0 < sint d")
    case True
    from bn have "sint n \<le> 2 ^ 53" by simp
    from low_efficiency_iff [OF True this bd] ratio_below_50_iff [OF True, of "sint n"] True
    show ?thesis
      by (simp add: out PrintMetrics_iff word_sless_alt)
  next
    case False
    then show ?thesis
      by (simp add: out PrintMetrics_iff word_sless_alt)
  qed
  from ls slow over line shown low show ?thesis by blast
qed


theorem efficiency_and_latency_warnings_witness:
  "sample_explain ''executionStats'' = Some (VMap sample_stats)
   \<and> sample_stats ''executionTimeMillis'' = Some (VInt64 150)
   \<and> sample_stats ''totalDocsExamined'' = Some (VInt64 100)
   \<and> sample_stats ''nReturned'' = Some (VInt64 10)
   \<and> \<bar>sint (10 :: int64)\<bar> \<le> 2 ^ 53 \<and> sint (100 :: int64) \<le> 2 ^ 53
   \<and> (\<exists>ls. PrintExplainResults sample_explain ''read_v1'' = Inr ls
          \<and> list_ex is_slow_query_warning ls \<and> list_ex is_over_examination_warning ls)
   \<and> list_ex is_efficiency_line (report_metrics (Some sample_explain) 0 0 0 ''read_v1'')
   \<and> EfficiencyLine 10 \<in> set (report_metrics (Some sample_explain) 0 0 0 ''read_v1'')
   \<and> list_ex is_low_efficiency_warning (report_metrics (Some sample_explain) 0 0 0 ''read_v1'')"
proof -
  have h1: "sample_explain ''executionStats'' = Some (VMap sample_stats)"
    by (simp add: sample_explain_def)
  have h2: "sample_stats ''executionTimeMillis'' = Some (VInt64 150)"
    and h3: "sample_stats ''totalDocsExamined'' = Some (VInt64 100)"
    and h4: "sample_stats ''nReturned'' = Some (VInt64 10)"
    by (simp_all add: sample_stats_def)
  have h5: "\<bar>sint (10 :: int64)\<bar> \<le> 2 ^ 53" and h6: "sint (100 :: int64) \<le> 2 ^ 53"
    by simp_all
  have v: "round64 (round64 (1 / 10) * 100) = 10" by code_simp
  note th = efficiency_and_latency_warnings
    [where explainResult = sample_explain and es = sample_stats and version = "''read_v1''"
       and duration = 0 and recordsRead = 0 and memUsed = 0, OF h1 h2 h3 h4 h5 h6]
  from th have a: "\<exists>ls. PrintExplainResults sample_explain ''read_v1'' = Inr ls
          \<and> list_ex is_slow_query_warning ls \<and> list_ex is_over_examination_warning ls"
    by simp
  from th have b: "list_ex is_efficiency_line (report_metrics (Some sample_explain) 0 0 0 ''read_v1'')"
    by simp
  from th have c: "EfficiencyLine 10 \<in> set (report_metrics (Some sample_explain) 0 0 0 ''read_v1'')"
    by (simp add: v)
  from th have d: "list_ex is_low_efficiency_warning (report_metrics (Some sample_explain) 0 0 0 ''read_v1'')"
    by simp
  from h1 h2 h3 h4 h5 h6 a b c d show ?thesis by blast
qed

text \<open>The claim as stated speaks of every execution-stats input.  An \<^verbatim>\<open>executionTimeMillis\<close> of
  150 that arrives as an \<^verbatim>\<open>int32\<close> exceeds 100 and raises no latency warning.\<close>

theorem int32_latency_raises_no_warning:
  "100 < sint (150 :: int32)
   \<and> PrintExplainResults
       [''executionStats'' \<mapsto> VMap [''executionTimeMillis'' \<mapsto> VInt32 150]] ''read_v1''
     = Inr [ExplainHeader ''read_v1'', StatsHeader, ExecTimeLine (Some (VInt32 150)),
            DocsExaminedLine None, KeysExaminedLine None, NReturnedLine None,
            JsonHeader,
            JsonDump [''executionStats'' \<mapsto> VMap [''executionTimeMillis'' \<mapsto> VInt32 150]],
            BlankLine, Separator]"
  by (simp add: PrintExplainResults_def execution_stats_lines_def over_examination_lines_def
      stats_info_lines_def slow_query_lines_def query_planner_lines_def)

section \<open>Facts about absent fields\<close>

lemma as_int64_Some_iff: "as_int64 v = Some n \<longleftrightarrow> v = Some (VInt64 n)"
  by (cases v rule: as_int64.cases) simp_all

lemma as_map_Some_iff: "as_map v = Some m \<longleftrightarrow> v = Some (VMap m)"
  by (cases v rule: as_map.cases) simp_all

lemma as_int64_absent: "as_int64 None = None"
  by simp

lemma report_metrics_no_stats:
  "as_map (d ''executionStats'') = None \<Longrightarrow> report_metrics (Some d) dur recs mem v = []"
  by (simp add: report_metrics_def)

lemma parse_None_iff:
  "parse_execution_stats es = None \<longleftrightarrow>
     as_int64 (es ''executionTimeMillis'') = None \<and> as_int64 (es ''totalDocsExamined'') = None
     \<and> as_int64 (es ''totalKeysExamined'') = None \<and> as_int64 (es ''nReturned'') = None"
  by (simp add: parse_execution_stats_eq)

lemma parse_Some_fields:
  assumes "parse_execution_stats es = Some st"
  shows "ExecutionTimeMillis st = int64_or_zero (es ''executionTimeMillis'')"
    and "TotalDocsExamined st = int64_or_zero (es ''totalDocsExamined'')"
    and "TotalKeysExamined st = int64_or_zero (es ''totalKeysExamined'')"
    and "NReturned st = int64_or_zero (es ''nReturned'')"
  using assms by (auto simp: parse_execution_stats_eq split: if_splits)

text \<open>
  Claim C8, as amended.  \<^verbatim>\<open>PrintExplainResults\<close> returns on every explain document.  Where the
  execution statistics, or the field a warning reads in them, are absent, that warning is
  not written, and without execution statistics the closing report writes nothing.  The
  parsed \<^verbatim>\<open>ExecutionStats\<close> is nil exactly when none of its four fields is an \<^verbatim>\<open>int64\<close> in the
  document; otherwise it is a struct of plain \<^verbatim>\<open>int64\<close> fields in which every absent field
  holds the value zero.
\<close>

theorem absent_fields_policy:
  "(\<exists>ls. PrintExplainResults explainResult version = Inr ls)
   \<and> (\<forall>ls. PrintExplainResults explainResult version = Inr ls \<longrightarrow>
         (as_map (explainResult ''executionStats'') = None \<longrightarrow>
            \<not> list_ex is_slow_query_warning ls \<and> \<not> list_ex is_over_examination_warning ls)
         \<and> (\<forall>es. as_map (explainResult ''executionStats'') = Some es
                  \<and> es ''executionTimeMillis'' = None \<longrightarrow>
                \<not> list_ex is_slow_query_warning ls)
         \<and> (\<forall>es. as_map (explainResult ''executionStats'') = Some es
                  \<and> (es ''totalDocsExamined'' = None \<or> es ''nReturned'' = None) \<longrightarrow>
                \<not> list_ex is_over_examination_warning ls))
   \<and> (as_map (explainResult ''executionStats'') = None \<longrightarrow>
         report_metrics (Some explainResult) duration recordsRead memUsed version = [])
   \<and> (parse_execution_stats execStats = None \<longleftrightarrow>
         as_int64 (execStats ''executionTimeMillis'') = None
         \<and> as_int64 (execStats ''totalDocsExamined'') = None
         \<and> as_int64 (execStats ''totalKeysExamined'') = None
         \<and> as_int64 (execStats ''nReturned'') = None)
   \<and> (\<forall>st. parse_execution_stats execStats = Some st \<longrightarrow>
         (execStats ''executionTimeMillis'' = None \<longrightarrow> ExecutionTimeMillis st = 0)
         \<and> (execStats ''totalDocsExamined'' = None \<longrightarrow> TotalDocsExamined st = 0)
         \<and> (execStats ''totalKeysExamined'' = None \<longrightarrow> TotalKeysExamined st = 0)
         \<and> (execStats ''nReturned'' = None \<longrightarrow> NReturned st = 0))"
proof (intro conjI allI impI)
  show "\<exists>ls. PrintExplainResults explainResult version = Inr ls"
    by (rule PrintExplainResults_total)
next
  fix ls
  assume "PrintExplainResults explainResult version = Inr ls"
    and "as_map (explainResult ''executionStats'') = None"
  then show "\<not> list_ex is_slow_query_warning ls"
    by (simp add: explain_slow_iff)
next
  fix ls
  assume "PrintExplainResults explainResult version = Inr ls"
    and "as_map (explainResult ''executionStats'') = None"
  then show "\<not> list_ex is_over_examination_warning ls"
    by (simp add: explain_over_iff)
next
  fix ls es
  assume "PrintExplainResults explainResult version = Inr ls"
    and "as_map (explainResult ''executionStats'') = Some es \<and> es ''executionTimeMillis'' = None"
  then show "\<not> list_ex is_slow_query_warning ls"
    by (simp add: explain_slow_iff)
next
  fix ls es
  assume ls: "PrintExplainResults explainResult version = Inr ls"
    and "as_map (explainResult ''executionStats'') = Some es
      \<and> (es ''totalDocsExamined'' = None \<or> es ''nReturned'' = None)"
  then show "\<not> list_ex is_over_examination_warning ls"
    by (auto simp: explain_over_iff [OF ls])
next
  assume "as_map (explainResult ''executionStats'') = None"
  then show "report_metrics (Some explainResult) duration recordsRead memUsed version = []"
    by (rule report_metrics_no_stats)
next
  show "parse_execution_stats execStats = None \<longleftrightarrow>
         as_int64 (execStats ''executionTimeMillis'') = None
         \<and> as_int64 (execStats ''totalDocsExamined'') = None
         \<and> as_int64 (execStats ''totalKeysExamined'') = None
         \<and> as_int64 (execStats ''nReturned'') = None"
    by (rule parse_None_iff)
next
  fix st
  assume "parse_execution_stats execStats = Some st" and "execStats ''executionTimeMillis'' = None"
  then show "ExecutionTimeMillis st = 0"
    using parse_Some_fields(1) [of execStats st] by (simp add: int64_or_zero_def)
next
  fix st
  assume "parse_execution_stats execStats = Some st" and "execStats ''totalDocsExamined'' = None"
  then show "TotalDocsExamined st = 0"
    using parse_Some_fields(2) [of execStats st] by (simp add: int64_or_zero_def)
next
  fix st
  assume "parse_execution_stats execStats = Some st" and "execStats ''totalKeysExamined'' = None"
  then show "TotalKeysExamined st = 0"
    using parse_Some_fields(3) [of execStats st] by (simp add: int64_or_zero_def)
next
  fix st
  assume "parse_execution_stats execStats = Some st" and "execStats ''nReturned'' = None"
  then show "NReturned st = 0"
    using parse_Some_fields(4) [of execStats st] by (simp add: int64_or_zero_def)
qed

theorem absent_fields_policy_witness:
  "as_map ([''queryPlanner'' \<mapsto> VMap Map.empty] ''executionStats'') = None
   \<and> (\<exists>ls. PrintExplainResults [''queryPlanner'' \<mapsto> VMap Map.empty] ''read_v1'' = Inr ls
          \<and> \<not> list_ex is_slow_query_warning ls \<and> \<not> list_ex is_over_examination_warning ls)
   \<and> report_metrics (Some [''queryPlanner'' \<mapsto> VMap Map.empty]) 0 0 0 ''read_v1'' = []
   \<and> parse_execution_stats Map.empty = None
   \<and> parse_execution_stats [''totalDocsExamined'' \<mapsto> VInt64 10]
       = Some \<lparr>ExecutionTimeMillis = 0, TotalDocsExamined = 10, TotalKeysExamined = 0,
               NReturned = 0, ExecutionStages = None\<rparr>
   \<and> [''totalDocsExamined'' \<mapsto> VInt64 10] ''nReturned'' = None
   \<and> NReturned \<lparr>ExecutionTimeMillis = 0, TotalDocsExamined = 10, TotalKeysExamined = 0,
               NReturned = 0, ExecutionStages = None\<rparr> = 0"
proof -
  let ?d = "[''queryPlanner'' \<mapsto> VMap Map.empty] :: document"
  let ?es = "[''totalDocsExamined'' \<mapsto> VInt64 10] :: document"
  have h: "as_map (?d ''executionStats'') = None" by simp
  have p: "parse_execution_stats ?es
       = Some \<lparr>ExecutionTimeMillis = 0, TotalDocsExamined = 10, TotalKeysExamined = 0,
               NReturned = 0, ExecutionStages = None\<rparr>"
    by (simp add: parse_execution_stats_def ensure_stats_def zero_stats_def)
  have q: "?es ''nReturned'' = None" by simp
  note t1 = absent_fields_policy
    [where explainResult = ?d and version = "''read_v1''" and duration = 0
       and recordsRead = 0 and memUsed = 0 and execStats = Map.empty]
  note t2 = absent_fields_policy
    [where explainResult = ?d and version = "''read_v1''" and duration = 0
       and recordsRead = 0 and memUsed = 0 and execStats = ?es]
  from t1 obtain ls where ls: "PrintExplainResults ?d ''read_v1'' = Inr ls"
    by blast
  from t1 have "PrintExplainResults ?d ''read_v1'' = Inr ls \<longrightarrow>
      (as_map (?d ''executionStats'') = None \<longrightarrow>
         \<not> list_ex is_slow_query_warning ls \<and> \<not> list_ex is_over_examination_warning ls)"
    by blast
  with ls h have "PrintExplainResults ?d ''read_v1'' = Inr ls
      \<and> \<not> list_ex is_slow_query_warning ls \<and> \<not> list_ex is_over_examination_warning ls"
    by blast
  then have a: "\<exists>ls. PrintExplainResults ?d ''read_v1'' = Inr ls
          \<and> \<not> list_ex is_slow_query_warning ls \<and> \<not> list_ex is_over_examination_warning ls"
    by (rule exI)
  from t1 h have b: "report_metrics (Some ?d) 0 0 0 ''read_v1'' = []"
    by blast
  from t1 have c: "parse_execution_stats Map.empty = None"
    by simp
  from t2 p q have e: "NReturned \<lparr>ExecutionTimeMillis = 0, TotalDocsExamined = 10,
      TotalKeysExamined = 0, NReturned = 0, ExecutionStages = None\<rparr> = 0"
    by blast
  from h a b c p q e show ?thesis by - (intro conjI; assumption)
qed

text \<open>The claim as stated has the parsed statistics record an absent field as unset, not as
  zero.  Statistics with only \<^verbatim>\<open>totalDocsExamined\<close> = 10 parse to the same struct as
  statistics whose other fields are present and zero, and the report reads the absent
  \<^verbatim>\<open>nReturned\<close> as 0: it writes the low-efficiency warning.\<close>

theorem absent_field_is_stored_as_zero:
  "parse_execution_stats [''totalDocsExamined'' \<mapsto> VInt64 10]
     = Some \<lparr>ExecutionTimeMillis = 0, TotalDocsExamined = 10, TotalKeysExamined = 0,
             NReturned = 0, ExecutionStages = None\<rparr>
   \<and> parse_execution_stats [''totalDocsExamined'' \<mapsto> VInt64 10]
     = parse_execution_stats
         [''executionTimeMillis'' \<mapsto> VInt64 0, ''totalDocsExamined'' \<mapsto> VInt64 10,
          ''totalKeysExamined'' \<mapsto> VInt64 0, ''nReturned'' \<mapsto> VInt64 0]
   \<and> list_ex is_low_efficiency_warning
        (report_metrics
           (Some [''executionStats'' \<mapsto> VMap [''totalDocsExamined'' \<mapsto> VInt64 10]])
           0 0 0 ''read_v1'')"
proof -
  let ?es = "[''totalDocsExamined'' \<mapsto> VInt64 10] :: document"
  let ?st = "\<lparr>ExecutionTimeMillis = 0, TotalDocsExamined = 10, TotalKeysExamined = 0,
             NReturned = 0, ExecutionStages = None\<rparr>"
  have p: "parse_execution_stats ?es = Some ?st"
    by (simp add: parse_execution_stats_def ensure_stats_def zero_stats_def)
  have p': "parse_execution_stats
         [''executionTimeMillis'' \<mapsto> VInt64 0, ''totalDocsExamined'' \<mapsto> VInt64 10,
          ''totalKeysExamined'' \<mapsto> VInt64 0, ''nReturned'' \<mapsto> VInt64 0] = Some ?st"
    by (simp add: parse_execution_stats_def ensure_stats_def zero_stats_def)
  have "efficiency 0 10 \<le> 0"
    by (rule efficiency_nonpos) simp_all
  then have "efficiency 0 10 < 50" by simp
  then have w: "list_ex is_low_efficiency_warning
        (report_metrics (Some [''executionStats'' \<mapsto> VMap ?es]) 0 0 0 ''read_v1'')"
    by (simp add: report_metrics_def p PrintMetrics_iff word_sless_alt)
  from p p' have "parse_execution_stats ?es
     = parse_execution_stats
         [''executionTimeMillis'' \<mapsto> VInt64 0, ''totalDocsExamined'' \<mapsto> VInt64 10,
          ''totalKeysExamined'' \<mapsto> VInt64 0, ''nReturned'' \<mapsto> VInt64 0]"
    by (rule trans [OF _ sym])
  with p w show ?thesis by - (intro conjI; assumption)
qed

section \<open>Facts about the type of a field\<close>

lemma as_int64_upd:
  "as_int64 (es k) = None \<Longrightarrow> as_int64 ((es(k := None)) k') = as_int64 (es k')"
  by (cases "k' = k") simp_all

lemma slow_query_lines_upd:
  "as_int64 (es k) = None \<Longrightarrow> slow_query_lines (es(k := None)) = slow_query_lines es"
  unfolding slow_query_lines_def by (simp only: as_int64_upd)

lemma over_examination_lines_upd:
  "as_int64 (es k) = None \<Longrightarrow> over_examination_lines (es(k := None)) = over_examination_lines es"
  unfolding over_examination_lines_def by (simp only: as_int64_upd)

lemma parse_execution_stats_upd:
  "as_int64 (es k) = None \<Longrightarrow> parse_execution_stats (es(k := None)) = parse_execution_stats es"
  unfolding parse_execution_stats_def by (simp only: as_int64_upd)

lemma filter_warning_info: "filter is_warning (stats_info_lines es) = []"
  by (simp add: stats_info_lines_def)

lemma explain_warnings_stats:
  assumes "as_map (d ''executionStats'') = Some es"
  shows "explain_warnings d v =
     (case over_examination_lines es of
        Inl e \<Rightarrow> []
      | Inr ws \<Rightarrow> filter is_warning (slow_query_lines es) @ filter is_warning ws @
                  filter is_warning (query_planner_lines d))"
  using assms
  by (simp add: explain_warnings_def PrintExplainResults_def execution_stats_lines_def
      filter_warning_info split: sum.splits)

lemma query_planner_lines_upd:
  "query_planner_lines (d(''executionStats'' \<mapsto> x)) = query_planner_lines d"
  by (simp add: query_planner_lines_def)

lemma explain_warnings_upd:
  assumes "d ''executionStats'' = Some (VMap es)" and "as_int64 (es k) = None"
  shows "explain_warnings (d(''executionStats'' \<mapsto> VMap (es(k := None)))) v
           = explain_warnings d v"
proof -
  let ?d' = "d(''executionStats'' \<mapsto> VMap (es(k := None)))"
  have a: "as_map (d ''executionStats'') = Some es" using assms(1) by simp
  have b: "as_map (?d' ''executionStats'') = Some (es(k := None))" by simp
  show ?thesis
    unfolding explain_warnings_stats [of d es, OF a]
      explain_warnings_stats [of ?d' "es(k := None)", OF b]
    by (simp only: slow_query_lines_upd [of es k, OF assms(2)]
        over_examination_lines_upd [of es k, OF assms(2)]
        query_planner_lines_upd)
qed

lemma report_metrics_upd:
  assumes "d ''executionStats'' = Some (VMap es)" and "as_int64 (es k) = None"
  shows "report_metrics (Some (d(''executionStats'' \<mapsto> VMap (es(k := None))))) dur recs mem v
           = report_metrics (Some d) dur recs mem v"
  using assms by (simp add: report_metrics_def parse_execution_stats_upd)

text \<open>
  Claim C10.  The slow-query warning is written only if \<^verbatim>\<open>executionTimeMillis\<close> is present as
  an \<^verbatim>\<open>int64\<close>, and the over-examination warning only if \<^verbatim>\<open>totalDocsExamined\<close> and
  \<^verbatim>\<open>nReturned\<close> both are.  A field of the parsed \<^verbatim>\<open>ExecutionStats\<close> is the field of the document
  when that is an \<^verbatim>\<open>int64\<close> and keeps the zero value otherwise; an \<^verbatim>\<open>int32\<close> or a
  \<^verbatim>\<open>float64\<close> is no \<^verbatim>\<open>int64\<close>.  A field that is present with another type is ignored:
  removing it from the document changes neither the parsed statistics, nor the warnings of
  \<^verbatim>\<open>PrintExplainResults\<close>, nor the closing report.
\<close>

theorem int64_gating:
  "(\<forall>ls. PrintExplainResults explainResult version = Inr ls \<longrightarrow>
       (list_ex is_slow_query_warning ls \<longrightarrow>
          (\<exists>es t. explainResult ''executionStats'' = Some (VMap es)
                 \<and> es ''executionTimeMillis'' = Some (VInt64 t)))
       \<and> (list_ex is_over_examination_warning ls \<longrightarrow>
          (\<exists>es d n. explainResult ''executionStats'' = Some (VMap es)
                 \<and> es ''totalDocsExamined'' = Some (VInt64 d)
                 \<and> es ''nReturned'' = Some (VInt64 n))))
   \<and> (\<forall>st. parse_execution_stats execStats = Some st \<longrightarrow>
         ExecutionTimeMillis st = int64_or_zero (execStats ''executionTimeMillis'')
         \<and> TotalDocsExamined st = int64_or_zero (execStats ''totalDocsExamined'')
         \<and> TotalKeysExamined st = int64_or_zero (execStats ''totalKeysExamined'')
         \<and> NReturned st = int64_or_zero (execStats ''nReturned''))
   \<and> (\<forall>v. int64_or_zero (Some (VInt64 v)) = v)
   \<and> (\<forall>x. as_int64 x = None \<longrightarrow> int64_or_zero x = 0)
   \<and> (\<forall>w. as_int64 (Some (VInt32 w)) = None) \<and> (\<forall>b. as_int64 (Some (VDouble b)) = None)
   \<and> (\<forall>k. as_int64 (execStats k) = None \<longrightarrow>
         parse_execution_stats (execStats(k := None)) = parse_execution_stats execStats)
   \<and> (\<forall>k. as_int64 (execStats k) = None
            \<and> explainResult ''executionStats'' = Some (VMap execStats) \<longrightarrow>
         explain_warnings (explainResult(''executionStats'' \<mapsto> VMap (execStats(k := None)))) version
           = explain_warnings explainResult version
         \<and> report_metrics (Some (explainResult(''executionStats'' \<mapsto> VMap (execStats(k := None)))))
             duration recordsRead memUsed version
           = report_metrics (Some explainResult) duration recordsRead memUsed version)"
proof (intro conjI allI impI)
  fix ls
  assume ls: "PrintExplainResults explainResult version = Inr ls"
    and "list_ex is_slow_query_warning ls"
  then show "\<exists>es t. explainResult ''executionStats'' = Some (VMap es)
                 \<and> es ''executionTimeMillis'' = Some (VInt64 t)"
    by (auto simp: explain_slow_iff [OF ls] as_int64_Some_iff as_map_Some_iff)
next
  fix ls
  assume ls: "PrintExplainResults explainResult version = Inr ls"
    and "list_ex is_over_examination_warning ls"
  then show "\<exists>es d n. explainResult ''executionStats'' = Some (VMap es)
                 \<and> es ''totalDocsExamined'' = Some (VInt64 d)
                 \<and> es ''nReturned'' = Some (VInt64 n)"
    by (auto simp: explain_over_iff [OF ls] as_int64_Some_iff as_map_Some_iff)
next
  fix st
  assume st: "parse_execution_stats execStats = Some st"
  show "ExecutionTimeMillis st = int64_or_zero (execStats ''executionTimeMillis'')"
    by (rule parse_Some_fields(1) [OF st])
  show "TotalDocsExamined st = int64_or_zero (execStats ''totalDocsExamined'')"
    by (rule parse_Some_fields(2) [OF st])
  show "TotalKeysExamined st = int64_or_zero (execStats ''totalKeysExamined'')"
    by (rule parse_Some_fields(3) [OF st])
  show "NReturned st = int64_or_zero (execStats ''nReturned'')"
    by (rule parse_Some_fields(4) [OF st])
next
  fix v
  show "int64_or_zero (Some (VInt64 v)) = v"
    by (simp add: int64_or_zero_def)
next
  fix x
  assume "as_int64 x = None"
  then show "int64_or_zero x = 0"
    by (simp add: int64_or_zero_def)
next
  fix w
  show "as_int64 (Some (VInt32 w)) = None" by simp
next
  fix b
  show "as_int64 (Some (VDouble b)) = None" by simp
next
  fix k
  assume "as_int64 (execStats k) = None"
  then show "parse_execution_stats (execStats(k := None)) = parse_execution_stats execStats"
    by (rule parse_execution_stats_upd)
next
  fix k
  assume h: "as_int64 (execStats k) = None
    \<and> explainResult ''executionStats'' = Some (VMap execStats)"
  then show "explain_warnings (explainResult(''executionStats'' \<mapsto> VMap (execStats(k := None)))) version
           = explain_warnings explainResult version"
    by (intro explain_warnings_upd) simp_all
  from h show "report_metrics (Some (explainResult(''executionStats'' \<mapsto> VMap (execStats(k := None)))))
             duration recordsRead memUsed version
           = report_metrics (Some explainResult) duration recordsRead memUsed version"
    by (intro report_metrics_upd) simp_all
qed


theorem int64_gating_witness:
  "(\<exists>ls. PrintExplainResults sample_explain ''read_v1'' = Inr ls
        \<and> list_ex is_slow_query_warning ls \<and> list_ex is_over_examination_warning ls)
   \<and> (\<exists>es t. sample_explain ''executionStats'' = Some (VMap es)
              \<and> es ''executionTimeMillis'' = Some (VInt64 t))
   \<and> as_int64 (int32_stats ''executionTimeMillis'') = None
   \<and> int32_explain ''executionStats'' = Some (VMap int32_stats)
   \<and> parse_execution_stats int32_stats
       = Some \<lparr>ExecutionTimeMillis = 0, TotalDocsExamined = 100, TotalKeysExamined = 0,
               NReturned = 10, ExecutionStages = None\<rparr>
   \<and> int64_or_zero (int32_stats ''executionTimeMillis'') = 0
   \<and> explain_warnings int32_explain ''read_v1'' = [OverExaminationWarning 10]
   \<and> explain_warnings
        (int32_explain(''executionStats'' \<mapsto> VMap (int32_stats(''executionTimeMillis'' := None))))
        ''read_v1''
       = explain_warnings int32_explain ''read_v1''
   \<and> report_metrics
        (Some (int32_explain(''executionStats'' \<mapsto> VMap (int32_stats(''executionTimeMillis'' := None)))))
        0 0 0 ''read_v1''
       = report_metrics (Some int32_explain) 0 0 0 ''read_v1''"
proof -
  note t1 = int64_gating
    [where explainResult = sample_explain and version = "''read_v1''" and execStats = sample_stats
       and duration = 0 and recordsRead = 0 and memUsed = 0]
  note t2 = int64_gating
    [where explainResult = int32_explain and version = "''read_v1''" and execStats = int32_stats
       and duration = 0 and recordsRead = 0 and memUsed = 0]
  obtain ls where ls: "PrintExplainResults sample_explain ''read_v1'' = Inr ls"
    using PrintExplainResults_total by blast
  have slow: "list_ex is_slow_query_warning ls"
    by (simp add: explain_slow_iff [OF ls] sample_explain_def sample_stats_def word_sless_alt)
  have over: "list_ex is_over_examination_warning ls"
    by (simp add: explain_over_iff [OF ls] sample_explain_def sample_stats_def word_sless_alt)
  from ls slow over have a: "\<exists>ls. PrintExplainResults sample_explain ''read_v1'' = Inr ls
        \<and> list_ex is_slow_query_warning ls \<and> list_ex is_over_examination_warning ls"
    by blast
  from t1 have "PrintExplainResults sample_explain ''read_v1'' = Inr ls \<longrightarrow>
       (list_ex is_slow_query_warning ls \<longrightarrow>
          (\<exists>es t. sample_explain ''executionStats'' = Some (VMap es)
                 \<and> es ''executionTimeMillis'' = Some (VInt64 t)))"
    by blast
  with ls slow have b: "\<exists>es t. sample_explain ''executionStats'' = Some (VMap es)
              \<and> es ''executionTimeMillis'' = Some (VInt64 t)"
    by blast
  have c: "as_int64 (int32_stats ''executionTimeMillis'') = None"
    by (simp add: int32_stats_def)
  have d: "int32_explain ''executionStats'' = Some (VMap int32_stats)"
    by (simp add: int32_explain_def)
  have e: "parse_execution_stats int32_stats
       = Some \<lparr>ExecutionTimeMillis = 0, TotalDocsExamined = 100, TotalKeysExamined = 0,
               NReturned = 10, ExecutionStages = None\<rparr>"
    by (simp add: parse_execution_stats_def ensure_stats_def zero_stats_def int32_stats_def)
  from t2 have "\<forall>x. as_int64 x = None \<longrightarrow> int64_or_zero x = 0" by blast
  with c have f: "int64_or_zero (int32_stats ''executionTimeMillis'') = 0" by blast
  have g: "explain_warnings int32_explain ''read_v1'' = [OverExaminationWarning 10]"
    by (simp add: explain_warnings_def PrintExplainResults_def execution_stats_lines_def
        over_examination_lines_def stats_info_lines_def slow_query_lines_def
        query_planner_lines_def int32_explain_def int32_stats_def go_div_def word_sless_alt)
  from t2 have "as_int64 (int32_stats ''executionTimeMillis'') = None
            \<and> int32_explain ''executionStats'' = Some (VMap int32_stats) \<longrightarrow>
         explain_warnings
           (int32_explain(''executionStats'' \<mapsto> VMap (int32_stats(''executionTimeMillis'' := None))))
           ''read_v1''
           = explain_warnings int32_explain ''read_v1''
         \<and> report_metrics
             (Some (int32_explain(''executionStats'' \<mapsto> VMap (int32_stats(''executionTimeMillis'' := None)))))
             0 0 0 ''read_v1''
           = report_metrics (Some int32_explain) 0 0 0 ''read_v1''"
    by blast
  with c d have h: "explain_warnings
           (int32_explain(''executionStats'' \<mapsto> VMap (int32_stats(''executionTimeMillis'' := None))))
           ''read_v1''
           = explain_warnings int32_explain ''read_v1''"
    and i: "report_metrics
             (Some (int32_explain(''executionStats'' \<mapsto> VMap (int32_stats(''executionTimeMillis'' := None)))))
             0 0 0 ''read_v1''
           = report_metrics (Some int32_explain) 0 0 0 ''read_v1''"
    by blast+
  from a b c d e f g h i show ?thesis by - (intro conjI; assumption)
qed

end
